theory Spec2Isabelle
  imports Complex_Main
begin

section \<open>Data model\<close>

text \<open>
  The four services (\<^verbatim>\<open>llm-context-manager\<close>, \<^verbatim>\<open>llm-fast-reply\<close>, \<^verbatim>\<open>llm-tools\<close>,
  \<^verbatim>\<open>llm-rag\<close>) share one \<^verbatim>\<open>ContextManager\<close> class and one message shape.
  A message is a JavaScript object with a \<^verbatim>\<open>role\<close> string and a \<^verbatim>\<open>content\<close> that is a
  string or \<^verbatim>\<open>null\<close> (\<open>None\<close>). An assistant message that asks for a tool carries
  \<^verbatim>\<open>tool_calls\<close>, a tool result carries \<^verbatim>\<open>tool_call_id\<close>, and the retrieval service
  attaches \<^verbatim>\<open>sources\<close> to the system message.
\<close>

record fn_call =
  fn_name :: string
  fn_arguments :: string

record tool_call =
  tc_id :: string
  tc_type :: string
  tc_function :: fn_call

record message =
  role :: string
  content :: "string option"
  tool_calls :: "tool_call list option"
  tool_call_id :: "string option"
  sources :: "string list option"

record session_context =
  messages :: "message list"
  createdAt :: nat
  lastAccessedAt :: nat

text \<open>
  Contexts are JavaScript objects held by reference: \<^verbatim>\<open>getContext\<close> hands out the very
  object stored in the \<^verbatim>\<open>contexts\<close> map, and the request handler keeps it as
  \<^verbatim>\<open>contextData\<close> while \<^verbatim>\<open>addMessage\<close> mutates it. The model therefore has an explicit
  store of objects: \<open>objects\<close> maps an address to the context living there, \<open>fresh\<close> is
  the next unused address, \<open>contexts\<close> is the \<^verbatim>\<open>Map\<close> from task id to the address of
  its context, and \<open>now\<close> is what \<^verbatim>\<open>Date.now()\<close> returns.
\<close>

type_synonym addr = nat

record manager =
  objects :: "addr \<Rightarrow> session_context option"
  fresh :: addr
  contexts :: "string \<Rightarrow> addr option"
  now :: nat

record config =
  DEFAULT_PROMPT :: string
  MAX_CONTEXT_MESSAGES :: int
  CONTEXT_EXPIRY_HOURS :: int

section \<open>ContextManager\<close>

text \<open>\<^verbatim>\<open>!taskId\<close>: a task id is \<^verbatim>\<open>null\<close> or a string, and the empty string is falsy.\<close>

definition truthy :: "string option \<Rightarrow> bool" where
  "truthy taskId = (case taskId of None \<Rightarrow> False | Some s \<Rightarrow> s \<noteq> [])"

definition plain :: "string \<Rightarrow> string option \<Rightarrow> message" where
  "plain r c = \<lparr>role = r, content = c, tool_calls = None, tool_call_id = None, sources = None\<rparr>"

text \<open>\<^verbatim>\<open>{ messages: [{ role: 'system', content: DEFAULT_PROMPT }], createdAt, lastAccessedAt }\<close>\<close>

definition new_context :: "config \<Rightarrow> nat \<Rightarrow> session_context" where
  "new_context cfg t =
     \<lparr>messages = [plain ''system'' (Some (DEFAULT_PROMPT cfg))], createdAt = t, lastAccessedAt = t\<rparr>"

text \<open>Creating an object literal: it is placed at the next unused address.\<close>

definition alloc :: "session_context \<Rightarrow> manager \<Rightarrow> addr \<times> manager" where
  "alloc c m = (fresh m, m\<lparr>objects := (objects m)(fresh m \<mapsto> c), fresh := Suc (fresh m)\<rparr>)"

text \<open>\<^verbatim>\<open>context.lastAccessedAt = Date.now()\<close> on the object at address \<open>a\<close>.\<close>

definition touch :: "addr \<Rightarrow> manager \<Rightarrow> manager" where
  "touch a m =
     (case objects m a of
        None \<Rightarrow> m
      | Some c \<Rightarrow> m\<lparr>objects := (objects m)(a \<mapsto> c\<lparr>lastAccessedAt := now m\<rparr>)\<rparr>)"

text \<open>
  \<^verbatim>\<open>getContext(taskId)\<close>: with a falsy task id a new object is returned and the map is left
  alone; otherwise the registered object is created when missing, its
  \<^verbatim>\<open>lastAccessedAt\<close> refreshed, and the object itself (its address) returned.
\<close>

definition getContext :: "config \<Rightarrow> string option \<Rightarrow> manager \<Rightarrow> addr \<times> manager" where
  "getContext cfg taskId m =
     (case taskId of
        None \<Rightarrow> alloc (new_context cfg (now m)) m
      | Some tid \<Rightarrow>
          if tid = [] then alloc (new_context cfg (now m)) m
          else
            (case contexts m tid of
               None \<Rightarrow>
                 (case alloc (new_context cfg (now m)) m of
                    (a, m1) \<Rightarrow> (a, touch a (m1\<lparr>contexts := (contexts m1)(tid \<mapsto> a)\<rparr>)))
             | Some a \<Rightarrow> (a, touch a m)))"

text \<open>
  \<^verbatim>\<open>Array.prototype.slice(start)\<close> with one argument: a negative start counts from the
  end, and a start of zero (which is what \<^verbatim>\<open>-(0)\<close> is) keeps the whole array.
\<close>

definition js_slice_from :: "int \<Rightarrow> 'b list \<Rightarrow> 'b list" where
  "js_slice_from start xs =
     (let len = int (length xs);
          k = (if start < 0 then max (len + start) 0 else min start len)
      in drop (nat k) xs)"

text \<open>
  The body of \<^verbatim>\<open>addMessage\<close> after the context has been fetched: push, then trim when
  the length exceeds \<^verbatim>\<open>MAX_CONTEXT_MESSAGES + 1\<close>.
\<close>

definition push_and_trim :: "config \<Rightarrow> message \<Rightarrow> message list \<Rightarrow> message list" where
  "push_and_trim cfg msg ms =
     (let pushed = ms @ [msg] in
      if int (length pushed) > MAX_CONTEXT_MESSAGES cfg + 1
      then hd pushed # js_slice_from (- MAX_CONTEXT_MESSAGES cfg) pushed
      else pushed)"

text \<open>
  \<^verbatim>\<open>addMessage(taskId, message)\<close> returns \<^verbatim>\<open>null\<close> for a falsy task id and the context
  otherwise.
\<close>

definition addMessage ::
  "config \<Rightarrow> string option \<Rightarrow> message \<Rightarrow> manager \<Rightarrow> addr option \<times> manager" where
  "addMessage cfg taskId msg m =
     (if \<not> truthy taskId then (None, m)
      else
        (case getContext cfg taskId m of
           (a, m1) \<Rightarrow>
             (case objects m1 a of
                None \<Rightarrow> (Some a, m1)
              | Some c \<Rightarrow>
                  (Some a,
                   m1\<lparr>objects := (objects m1)(a \<mapsto> c\<lparr>messages := push_and_trim cfg msg (messages c)\<rparr>)\<rparr>))))"

text \<open>
  \<^verbatim>\<open>cleanExpiredContexts()\<close>: every entry whose context was last accessed more than
  \<^verbatim>\<open>CONTEXT_EXPIRY_HOURS\<close> hours (in milliseconds) ago is deleted from the map.
\<close>

definition expired :: "config \<Rightarrow> manager \<Rightarrow> addr \<Rightarrow> bool" where
  "expired cfg m a =
     (case objects m a of
        None \<Rightarrow> False
      | Some c \<Rightarrow> int (now m) - int (lastAccessedAt c) > CONTEXT_EXPIRY_HOURS cfg * 60 * 60 * 1000)"

definition cleanExpiredContexts :: "config \<Rightarrow> manager \<Rightarrow> manager" where
  "cleanExpiredContexts cfg m =
     m\<lparr>contexts := (\<lambda>tid. case contexts m tid of
                              None \<Rightarrow> None
                            | Some a \<Rightarrow> if expired cfg m a then None else Some a)\<rparr>"

text \<open>\<^verbatim>\<open>new ContextManager()\<close>: an empty map.\<close>

definition new_manager :: "nat \<Rightarrow> manager" where
  "new_manager t = \<lparr>objects = (\<lambda>_. None), fresh = 0, contexts = (\<lambda>_. None), now = t\<rparr>"

text \<open>The history a reference points at: \<^verbatim>\<open>contextData.messages\<close>.\<close>

definition history :: "manager \<Rightarrow> addr \<Rightarrow> message list" where
  "history m a = (case objects m a of None \<Rightarrow> [] | Some c \<Rightarrow> messages c)"

text \<open>
  \<^verbatim>\<open>main\<close> resolves the task id (\<^verbatim>\<open>headers['x-task-id'] || event.taskId || null\<close>) and
  folds the supplied messages into the context it then hands to the request handler.
\<close>

definition resolve_taskId :: "string option \<Rightarrow> string option \<Rightarrow> string option" where
  "resolve_taskId header body =
     (if truthy header then header else if truthy body then body else None)"

text \<open>\<^verbatim>\<open>contextData.messages[0] = msg\<close> and \<^verbatim>\<open>contextData.messages.push(msg)\<close> on a held reference.\<close>

definition set_first :: "addr \<Rightarrow> message \<Rightarrow> manager \<Rightarrow> manager" where
  "set_first a msg m =
     (case objects m a of
        None \<Rightarrow> m
      | Some c \<Rightarrow>
          m\<lparr>objects := (objects m)(a \<mapsto>
               c\<lparr>messages := (case messages c of [] \<Rightarrow> [msg] | _ # rest \<Rightarrow> msg # rest)\<rparr>)\<rparr>)"

definition push_direct :: "addr \<Rightarrow> message \<Rightarrow> manager \<Rightarrow> manager" where
  "push_direct a msg m =
     (case objects m a of
        None \<Rightarrow> m
      | Some c \<Rightarrow> m\<lparr>objects := (objects m)(a \<mapsto> c\<lparr>messages := messages c @ [msg]\<rparr>)\<rparr>)"

definition fold_messages ::
  "config \<Rightarrow> string option \<Rightarrow> message list \<Rightarrow> manager \<Rightarrow> addr \<times> manager" where
  "fold_messages cfg taskId msgs m =
     (case getContext cfg taskId m of
        (a, m1) \<Rightarrow>
          (case msgs of
             [] \<Rightarrow> (a, m1)
           | first # rest \<Rightarrow>
               if role first = ''system''
               then (a, foldl (\<lambda>m' x. if truthy taskId then snd (addMessage cfg taskId x m') else m')
                          (set_first a first m1) rest)
               else (a, foldl (\<lambda>m' x. if truthy taskId then snd (addMessage cfg taskId x m')
                                        else push_direct a x m')
                          m1 msgs)))"

section \<open>Output channel and provider\<close>

text \<open>
  A streamed chunk, as far as the handlers read it: \<^verbatim>\<open>choices[0].delta.tool_calls\<close>,
  \<^verbatim>\<open>choices[0].finish_reason\<close> and \<^verbatim>\<open>choices[0].delta.content\<close>, each possibly absent.
\<close>

record fn_delta =
  fd_name :: "string option"
  fd_arguments :: "string option"

record tool_call_delta =
  tcd_id :: "string option"
  tcd_type :: "string option"
  tcd_function :: "fn_delta option"

record chunk =
  delta_tool_calls :: "tool_call_delta list option"
  finish_reason :: "string option"
  delta_content :: "string option"

text \<open>
  What is written on the SSE channel: \<^verbatim>\<open>data: <chunk>\<close>, \<^verbatim>\<open>data: [DONE]\<close> or
  \<^verbatim>\<open>data: {"error": ...}\<close>, and the call \<^verbatim>\<open>sse.end()\<close>. The channel records in order the
  calls that went through (\<open>sse_log\<close>) and the calls that threw (\<open>sse_thrown\<close>);
  \<open>sse_closed\<close> is what \<^verbatim>\<open>sse.closed\<close> reads.

  The channel object comes from the runtime (\<^verbatim>\<open>context.sse()\<close>), and the handlers expect
  its methods to be able to throw: \<^verbatim>\<open>sse.send\<close> and \<^verbatim>\<open>sse.end\<close> are called inside the
  \<^verbatim>\<open>try\<close> block, and the \<^verbatim>\<open>catch\<close> block wraps its own calls in a second \<^verbatim>\<open>try\<close>. Whether
  a call returns or throws is the runtime's choice, so it is part of the channel here:
  \<open>sse_script\<close> lists what the calls of \<^verbatim>\<open>send\<close> and \<^verbatim>\<open>end\<close> still to come will do, one
  entry per call, and when the list is used up every call returns. A call that throws
  writes nothing; \<open>Throws e closes\<close> throws an error with message \<open>e\<close>, and \<open>closes\<close> tells
  whether the runtime has closed the channel by then (\<^verbatim>\<open>sse.closed\<close> reads true from then
  on) or has left it as it was.
\<close>

datatype frame = Data chunk | Done | Error_frame string

datatype sse_op = Send frame | End

datatype write_result = Returns | Throws string bool

record channel =
  sse_closed :: bool
  sse_log :: "sse_op list"
  sse_thrown :: "sse_op list"
  sse_script :: "write_result list"

text \<open>The next call on the channel: the error it throws, if any, and the script that remains.\<close>

definition next_write :: "channel \<Rightarrow> string option \<times> channel" where
  "next_write ch =
     (case sse_script ch of
        [] \<Rightarrow> (None, ch)
      | Returns # script \<Rightarrow> (None, ch\<lparr>sse_script := script\<rparr>)
      | Throws e closes # script \<Rightarrow>
          (Some e, ch\<lparr>sse_script := script, sse_closed := sse_closed ch \<or> closes\<rparr>))"

definition sse_send :: "frame \<Rightarrow> channel \<Rightarrow> string option \<times> channel" where
  "sse_send f ch =
     (case next_write ch of
        (Some e, ch1) \<Rightarrow> (Some e, ch1\<lparr>sse_thrown := sse_thrown ch1 @ [Send f]\<rparr>)
      | (None, ch1) \<Rightarrow> (None, ch1\<lparr>sse_log := sse_log ch1 @ [Send f]\<rparr>))"

definition sse_end :: "channel \<Rightarrow> string option \<times> channel" where
  "sse_end ch =
     (case next_write ch of
        (Some e, ch1) \<Rightarrow> (Some e, ch1\<lparr>sse_thrown := sse_thrown ch1 @ [End]\<rparr>)
      | (None, ch1) \<Rightarrow> (None, ch1\<lparr>sse_log := sse_log ch1 @ [End], sse_closed := True\<rparr>))"

text \<open>The client going away: from then on \<^verbatim>\<open>sse.closed\<close> is true.\<close>

definition client_closes :: "channel \<Rightarrow> channel" where
  "client_closes ch = ch\<lparr>sse_closed := True\<rparr>"

text \<open>
  The provider is the environment. What an awaited stream does next is an \<open>item\<close>: a
  chunk arrives, the iteration throws (the connection fails, or the chunk has no
  \<^verbatim>\<open>choices\<close> array to read), or, while the handler is suspended, the client closes the
  channel. A call to \<^verbatim>\<open>openai.chat.completions.create\<close> is answered by rejecting or by a
  stream; \<open>client_left\<close> says whether the client closed the channel while the call was
  pending.
\<close>

datatype item = Chunk chunk | Throw string | Disconnect

datatype reply = Rejects string | Stream "item list"

record answer =
  client_left :: bool
  reply :: reply

record request =
  req_model :: string
  req_messages :: "message list"
  req_stream :: bool
  req_tools :: bool

record world =
  manager :: manager
  wire :: channel
  requests :: "request list"

definition or_empty :: "string option \<Rightarrow> string" where
  "or_empty s = (case s of None \<Rightarrow> [] | Some x \<Rightarrow> x)"

definition await_call :: "answer \<Rightarrow> request \<Rightarrow> world \<Rightarrow> world" where
  "await_call ans req w =
     w\<lparr>requests := requests w @ [req],
       wire := (if client_left ans then client_closes (wire w) else wire w)\<rparr>"

section \<open>The relay loop\<close>

text \<open>
  \<^verbatim>\<open>for await (const chunk of stream) { const content = ... || ''; if (content) {
  assistantResponse += content; if (!sse.closed) sse.send(chunk) else break } }\<close>.
  The result is the thrown error if any (from the stream or from \<^verbatim>\<open>sse.send\<close>), the
  accumulated text, the channel, and the items of the stream that were never read.
\<close>

fun relay :: "item list \<Rightarrow> string \<Rightarrow> channel \<Rightarrow> string option \<times> string \<times> channel \<times> item list" where
  "relay [] acc ch = (None, acc, ch, [])"
| "relay (Disconnect # es) acc ch = relay es acc (client_closes ch)"
| "relay (Throw e # es) acc ch = (Some e, acc, ch, es)"
| "relay (Chunk c # es) acc ch =
     (if or_empty (delta_content c) \<noteq> []
      then (if \<not> sse_closed ch
            then (case sse_send (Data c) ch of
                    (Some e, ch1) \<Rightarrow> (Some e, acc @ or_empty (delta_content c), ch1, es)
                  | (None, ch1) \<Rightarrow> relay es (acc @ or_empty (delta_content c)) ch1)
            else (None, acc @ or_empty (delta_content c), ch, es))
      else relay es acc ch)"

text \<open>
  The end of the \<^verbatim>\<open>try\<close> block: the assistant message is saved when there is text and a
  task id (\<open>save\<close> carries the extra \<^verbatim>\<open>!collectingToolCall\<close> of the tools service), then
  the sentinel is sent and the channel ended unless it is closed. A call that throws
  there leaves the \<^verbatim>\<open>try\<close> block with its error.
\<close>

definition persist :: "config \<Rightarrow> string option \<Rightarrow> string \<Rightarrow> bool \<Rightarrow> manager \<Rightarrow> manager" where
  "persist cfg taskId assistantResponse save m =
     (if assistantResponse \<noteq> [] \<and> truthy taskId \<and> save
      then snd (addMessage cfg taskId (plain ''assistant'' (Some assistantResponse)) m)
      else m)"

definition send_done :: "channel \<Rightarrow> string option \<times> channel" where
  "send_done ch =
     (if \<not> sse_closed ch
      then (case sse_send Done ch of
              (Some e, ch1) \<Rightarrow> (Some e, ch1)
            | (None, ch1) \<Rightarrow> sse_end ch1)
      else (None, ch))"

text \<open>
  The \<^verbatim>\<open>catch\<close> block: \<^verbatim>\<open>{ error: error.message || 'Unknown error' }\<close> and \<^verbatim>\<open>end()\<close>
  unless closed, inside a \<^verbatim>\<open>try\<close> of their own whose \<^verbatim>\<open>catch\<close> only logs.
\<close>

definition send_error :: "string \<Rightarrow> channel \<Rightarrow> channel" where
  "send_error e ch =
     (if \<not> sse_closed ch
      then (case sse_send (Error_frame (if e = [] then ''Unknown error'' else e)) ch of
              (Some sseError, ch1) \<Rightarrow> ch1
            | (None, ch1) \<Rightarrow> snd (sse_end ch1))
      else ch)"

definition catch :: "string option \<times> world \<Rightarrow> world" where
  "catch r = (case r of (None, w) \<Rightarrow> w | (Some e, w) \<Rightarrow> w\<lparr>wire := send_error e (wire w)\<rparr>)"

section \<open>The context-manager service\<close>

text \<open>
  From the model check to the sentinel: the part of the \<^verbatim>\<open>try\<close> block that the
  context-manager and the fast-reply service share word for word.
\<close>

definition primary_call ::
  "config \<Rightarrow> string option \<Rightarrow> string \<Rightarrow> addr \<Rightarrow> answer \<Rightarrow> world \<Rightarrow> string option \<times> world" where
  "primary_call cfg taskId model contextData ans w =
     (if model = [] then (Some ''Model parameter is required but was not provided'', w)
      else
        (let w1 = await_call ans
                    \<lparr>req_model = model, req_messages = history (manager w) contextData,
                     req_stream = True, req_tools = False\<rparr> w
         in case reply ans of
              Rejects e \<Rightarrow> (Some e, w1)
            | Stream items \<Rightarrow>
                (case relay items [] (wire w1) of
                   (Some e, text, ch, rest) \<Rightarrow> (Some e, w1\<lparr>wire := ch\<rparr>)
                 | (None, text, ch, rest) \<Rightarrow>
                     (case send_done ch of
                        (r, ch1) \<Rightarrow>
                          (r, w1\<lparr>manager := persist cfg taskId text True (manager w1),
                                  wire := ch1\<rparr>)))))"

text \<open>
  \<^verbatim>\<open>handleStreamingRequest\<close> of the context-manager service. \<open>available\<close> is false when
  \<^verbatim>\<open>context.sse()\<close> gives no channel.
\<close>

definition handleStreamingRequest ::
  "config \<Rightarrow> string option \<Rightarrow> string \<Rightarrow> bool \<Rightarrow> addr \<Rightarrow> answer \<Rightarrow> world \<Rightarrow> world" where
  "handleStreamingRequest cfg taskId model available contextData ans w =
     (if \<not> available \<or> sse_closed (wire w) then w
      else catch (primary_call cfg taskId model contextData ans w))"

section \<open>The tools service\<close>

text \<open>
  \<^verbatim>\<open>functionResult\<close> is either \<^verbatim>\<open>{ error: ... }\<close> or what \<^verbatim>\<open>getWeather\<close> returned. The
  JSON library and the weather API are the environment of a request: \<open>JSON_parse\<close>
  gives the parsed value or the message of the error it throws, \<open>getWeather\<close> (together
  with the read of \<^verbatim>\<open>args.location\<close> before it) gives the weather object or the message of
  the error thrown, and \<open>JSON_stringify\<close> serializes a result.
\<close>

datatype 'a function_result = Error_object string | Weather 'a

record 'a tool_env =
  JSON_parse :: "string \<Rightarrow> string + 'a"
  getWeather :: "'a \<Rightarrow> string + 'a"
  JSON_stringify :: "'a function_result \<Rightarrow> string"

definition function_result :: "'a tool_env \<Rightarrow> fn_call \<Rightarrow> 'a function_result" where
  "function_result E functionCall =
     (if fn_name functionCall = ''get_weather''
      then (case JSON_parse E (fn_arguments functionCall) of
              Inl e \<Rightarrow> Error_object (''Error parsing arguments: '' @ e)
            | Inr args \<Rightarrow>
                (case getWeather E args of
                   Inl e \<Rightarrow> Error_object (''Error parsing arguments: '' @ e)
                 | Inr r \<Rightarrow> Weather r))
      else Error_object ''Function not implemented'')"

definition handleFunctionCall :: "'a tool_env \<Rightarrow> fn_call \<Rightarrow> string" where
  "handleFunctionCall E functionCall = JSON_stringify E (function_result E functionCall)"

text \<open>The variables of the loop of \<^verbatim>\<open>handleStreamingRequest\<close>.\<close>

record loop_state =
  assistantResponse :: string
  collectingToolCall :: bool
  toolCallData :: "tool_call option"
  accumulatedArguments :: string

definition initial_loop_state :: loop_state where
  "initial_loop_state =
     \<lparr>assistantResponse = [], collectingToolCall = False, toolCallData = None,
      accumulatedArguments = []\<rparr>"

text \<open>
  A chunk with \<^verbatim>\<open>delta.tool_calls\<close>: its first entry \<open>d\<close> starts the collection when none
  is running, and its \<^verbatim>\<open>function.arguments\<close>, when truthy, is appended to the buffer.
\<close>

definition fragment :: "tool_call_delta \<Rightarrow> string" where
  "fragment d = (case tcd_function d of None \<Rightarrow> [] | Some f \<Rightarrow> or_empty (fd_arguments f))"

definition collect :: "tool_call_delta \<Rightarrow> loop_state \<Rightarrow> loop_state" where
  "collect d ls =
     (let ls1 =
        (if \<not> collectingToolCall ls
         then ls\<lparr>collectingToolCall := True,
                 toolCallData := Some
                   \<lparr>tc_id = or_empty (tcd_id d),
                    tc_type = or_empty (tcd_type d),
                    tc_function =
                      \<lparr>fn_name = (case tcd_function d of None \<Rightarrow> [] | Some f \<Rightarrow> or_empty (fd_name f)),
                       fn_arguments = []\<rparr>\<rparr>\<rparr>
         else ls)
      in if fragment d \<noteq> []
         then ls1\<lparr>accumulatedArguments := accumulatedArguments ls1 @ fragment d\<rparr>
         else ls1)"

text \<open>What stays the same during one request of the tools service.\<close>

record 'a tool_request =
  tr_env :: "'a tool_env"
  tr_cfg :: config
  tr_taskId :: "string option"
  tr_model :: string
  tr_contextData :: addr
  tr_followUp :: answer

definition assistant_tool_message :: "tool_call \<Rightarrow> message" where
  "assistant_tool_message tc =
     \<lparr>role = ''assistant'', content = None, tool_calls = Some [tc], tool_call_id = None,
      sources = None\<rparr>"

definition tool_result_message :: "tool_call \<Rightarrow> string \<Rightarrow> message" where
  "tool_result_message tc functionResult =
     \<lparr>role = ''tool'', content = Some functionResult, tool_calls = None,
      tool_call_id = Some (tc_id tc), sources = None\<rparr>"

text \<open>
  The branch taken on \<^verbatim>\<open>finish_reason === 'tool_calls'\<close> while collecting: the buffer
  becomes the arguments of the call, the tool runs, both messages are recorded with
  \<^verbatim>\<open>addMessage\<close> when there is a task id, the follow-up request is made with
  \<^verbatim>\<open>[...contextData.messages, assistant message, tool message]\<close>, its stream is relayed,
  and the final text is saved.
\<close>

definition complete_tool_call ::
  "'a tool_request \<Rightarrow> loop_state \<Rightarrow> world \<Rightarrow> string option \<times> loop_state \<times> world" where
  "complete_tool_call R ls w =
     (case toolCallData ls of
        None \<Rightarrow> (Some ''Cannot read properties of null (reading 'function')'', ls, w)
      | Some tcd \<Rightarrow>
          (let tc = tcd\<lparr>tc_function := (tc_function tcd)\<lparr>fn_arguments := accumulatedArguments ls\<rparr>\<rparr>;
               ls1 = ls\<lparr>toolCallData := Some tc\<rparr>;
               functionResult = handleFunctionCall (tr_env R) (tc_function tc);
               m1 = (if truthy (tr_taskId R)
                     then snd (addMessage (tr_cfg R) (tr_taskId R) (tool_result_message tc functionResult)
                            (snd (addMessage (tr_cfg R) (tr_taskId R) (assistant_tool_message tc)
                               (manager w))))
                     else manager w);
               w1 = await_call (tr_followUp R)
                      \<lparr>req_model = tr_model R,
                       req_messages = history m1 (tr_contextData R) @
                          [assistant_tool_message tc, tool_result_message tc functionResult],
                       req_stream = True, req_tools = False\<rparr>
                      (w\<lparr>manager := m1\<rparr>)
           in case reply (tr_followUp R) of
                Rejects e \<Rightarrow> (Some e, ls1, w1)
              | Stream items \<Rightarrow>
                  (case relay items (assistantResponse ls1) (wire w1) of
                     (Some e, text, ch, rest) \<Rightarrow>
                       (Some e, ls1\<lparr>assistantResponse := text\<rparr>, w1\<lparr>wire := ch\<rparr>)
                   | (None, text, ch, rest) \<Rightarrow>
                       (None, ls1\<lparr>assistantResponse := text\<rparr>,
                        w1\<lparr>manager := persist (tr_cfg R) (tr_taskId R) text True (manager w1),
                           wire := ch\<rparr>))))"

text \<open>
  The main loop of the tools service. A chunk with \<^verbatim>\<open>tool_calls\<close> is collected and never
  sent; reading \<^verbatim>\<open>tool_calls[0]\<close> of an empty array gives \<^verbatim>\<open>undefined\<close>, whose property
  read throws. The result also holds the items of the primary stream never read.
\<close>

fun tool_relay ::
  "'a tool_request \<Rightarrow> item list \<Rightarrow> loop_state \<Rightarrow> world \<Rightarrow>
     string option \<times> loop_state \<times> world \<times> item list" where
  "tool_relay R [] ls w = (None, ls, w, [])"
| "tool_relay R (Disconnect # es) ls w = tool_relay R es ls (w\<lparr>wire := client_closes (wire w)\<rparr>)"
| "tool_relay R (Throw e # es) ls w = (Some e, ls, w, es)"
| "tool_relay R (Chunk c # es) ls w =
     (case delta_tool_calls c of
        Some [] \<Rightarrow>
          (Some (if collectingToolCall ls
                 then ''Cannot read properties of undefined (reading 'function')''
                 else ''Cannot read properties of undefined (reading 'id')''), ls, w, es)
      | Some (d # ds) \<Rightarrow> tool_relay R es (collect d ls) w
      | None \<Rightarrow>
          if collectingToolCall ls \<and> finish_reason c = Some ''tool_calls''
          then (case complete_tool_call R ls w of (err, ls', w') \<Rightarrow> (err, ls', w', es))
          else if or_empty (delta_content c) \<noteq> []
          then (if \<not> sse_closed (wire w)
                then (case sse_send (Data c) (wire w) of
                        (Some e, ch1) \<Rightarrow>
                          (Some e,
                           ls\<lparr>assistantResponse := assistantResponse ls @ or_empty (delta_content c)\<rparr>,
                           w\<lparr>wire := ch1\<rparr>, es)
                      | (None, ch1) \<Rightarrow>
                          tool_relay R es
                            (ls\<lparr>assistantResponse := assistantResponse ls @ or_empty (delta_content c)\<rparr>)
                            (w\<lparr>wire := ch1\<rparr>))
                else (None, ls\<lparr>assistantResponse := assistantResponse ls @ or_empty (delta_content c)\<rparr>,
                      w, es))
          else tool_relay R es ls w)"

definition tools_try ::
  "'a tool_request \<Rightarrow> answer \<Rightarrow> world \<Rightarrow> string option \<times> world" where
  "tools_try R ans w =
     (if tr_model R = [] then (Some ''Model parameter is required but was not provided'', w)
      else
        (let w1 = await_call ans
                    \<lparr>req_model = tr_model R,
                     req_messages = history (manager w) (tr_contextData R),
                     req_stream = True, req_tools = True\<rparr> w
         in case reply ans of
              Rejects e \<Rightarrow> (Some e, w1)
            | Stream items \<Rightarrow>
                (case tool_relay R items initial_loop_state w1 of
                   (Some e, ls, w2, rest) \<Rightarrow> (Some e, w2)
                 | (None, ls, w2, rest) \<Rightarrow>
                     (case send_done (wire w2) of
                        (r, ch1) \<Rightarrow>
                          (r, w2\<lparr>manager := persist (tr_cfg R) (tr_taskId R) (assistantResponse ls)
                                              (\<not> collectingToolCall ls) (manager w2),
                                  wire := ch1\<rparr>)))))"

text \<open>\<^verbatim>\<open>handleStreamingRequest\<close> of the tools service.\<close>

definition handleStreamingRequest_tools ::
  "'a tool_request \<Rightarrow> bool \<Rightarrow> answer \<Rightarrow> world \<Rightarrow> world" where
  "handleStreamingRequest_tools R available ans w =
     (if \<not> available \<or> sse_closed (wire w) then w else catch (tools_try R ans w))"

section \<open>The fast-reply service\<close>





definition newline :: string where
  "newline = [CHR 0x0A]"










section \<open>The retrieval service\<close>

text \<open>
  A stored document carries its embedding; a scored one is \<^verbatim>\<open>{ ...doc, similarity }\<close>.
  The embedding function and the cosine similarity are floating-point code outside the
  orchestration; they are parameters here, the similarity a real number. \<open>getEmbedding\<close>
  gives the vector or the message of the error it throws.
\<close>

record 'v document =
  doc_id :: string
  title :: string
  doc_content :: string
  embedding :: 'v

record 'v scored_document = "'v document" +
  similarity :: real

record 'v rag_system =
  documents :: "'v document list"
  getEmbedding :: "string \<Rightarrow> string + 'v"
  cosineSimilarity :: "'v \<Rightarrow> 'v \<Rightarrow> real"

text \<open>
  \<open>RAG_CONFIG\<close>, and the fixed Chinese texts of \<^verbatim>\<open>createContext\<close> (heading, document
  label, separator after the number, closing instruction).
\<close>

record rag_config =
  rag_enabled :: bool
  similarityThreshold :: real
  maxDocuments :: int
  text_heading :: string
  text_label :: string
  text_separator :: string
  text_instruction :: string

text \<open>\<^verbatim>\<open>Array.prototype.slice(0, end)\<close>: a negative end counts from the end of the array.\<close>

definition js_slice_to :: "int \<Rightarrow> 'b list \<Rightarrow> 'b list" where
  "js_slice_to e xs =
     (let len = int (length xs);
          k = (if e < 0 then max (len + e) 0 else min e len)
      in take (nat k) xs)"

definition score :: "'v rag_system \<Rightarrow> 'v \<Rightarrow> 'v document \<Rightarrow> 'v scored_document" where
  "score rag q d = document.extend d (scored_document.fields (cosineSimilarity rag q (embedding d)))"

text \<open>
  \<^verbatim>\<open>scoredDocs.filter(d => d.similarity >= threshold).sort((a, b) => b.similarity -
  a.similarity).slice(0, maxDocuments)\<close>. \<^verbatim>\<open>Array.prototype.sort\<close> is stable, and the
  comparator puts the larger similarity first: a stable sort on the negated similarity.
\<close>

definition relevant :: "rag_config \<Rightarrow> 'v scored_document list \<Rightarrow> 'v scored_document list" where
  "relevant rc scoredDocs =
     js_slice_to (maxDocuments rc)
       (sort_key (\<lambda>d. - similarity d)
          (filter (\<lambda>d. similarity d \<ge> similarityThreshold rc) scoredDocs))"

definition retrieveRelevantDocuments ::
  "'v rag_system \<Rightarrow> rag_config \<Rightarrow> string \<Rightarrow> 'v scored_document list option" where
  "retrieveRelevantDocuments rag rc query =
     (case getEmbedding rag query of
        Inl e \<Rightarrow> None
      | Inr queryEmbedding \<Rightarrow>
          (let relevantDocs = relevant rc (map (score rag queryEmbedding) (documents rag))
           in if length relevantDocs > 0 then Some relevantDocs else None))"

fun show_nat :: "nat \<Rightarrow> string" where
  "show_nat n =
     (if n < 10 then [char_of (48 + n)]
      else show_nat (n div 10) @ [char_of (48 + n mod 10)])"

declare show_nat.simps [simp del]

definition createContext :: "rag_config \<Rightarrow> 'v scored_document list \<Rightarrow> string option" where
  "createContext rc docs =
     (if docs = [] then None
      else Some
        (text_heading rc @ newline @ newline @
         concat (map (\<lambda>(index, doc).
                   ''['' @ text_label rc @ show_nat (index + 1) @ text_separator rc @ title doc @ '']'' @
                   newline @ doc_content doc @ newline @ newline)
                 (enumerate 0 docs)) @
         text_instruction rc))"

text \<open>
  \<^verbatim>\<open>enhanceSystemMessage(query, systemMessage)\<close>. Everything after the test of
  \<^verbatim>\<open>RAG_CONFIG.enabled\<close> runs in a \<^verbatim>\<open>try\<close> whose \<^verbatim>\<open>catch\<close> returns the original message.
  Once the new content is built, the log line reads \<^verbatim>\<open>systemMessage.content.length\<close>,
  which throws when the content is \<^verbatim>\<open>null\<close> or absent: such a message comes back as it
  was.
\<close>

definition enhanceSystemMessage ::
  "'v rag_system \<Rightarrow> rag_config \<Rightarrow> string \<Rightarrow> message \<Rightarrow> message" where
  "enhanceSystemMessage rag rc query systemMessage =
     (if \<not> rag_enabled rc then systemMessage
      else
        (case retrieveRelevantDocuments rag rc query of
           None \<Rightarrow> systemMessage
         | Some relevantDocs \<Rightarrow>
             if relevantDocs = [] then systemMessage
             else
               (case createContext rc relevantDocs of
                  None \<Rightarrow> systemMessage
                | Some ragContext \<Rightarrow>
                    (case content systemMessage of
                       None \<Rightarrow> systemMessage
                     | Some original \<Rightarrow>
                         \<lparr>role = ''system'',
                          content = Some (original @ newline @ newline @ ragContext),
                          tool_calls = None, tool_call_id = None,
                          sources = Some (map title relevantDocs)\<rparr>))))"

section \<open>Notions used in the statements\<close>

text \<open>
  What callers can do to a \<^verbatim>\<open>ContextManager\<close> and to the contexts they hold: the two
  methods, the periodic sweep, the passing of time, and a write through a held reference
  (\<^verbatim>\<open>contextData.messages[0] = ...\<close>, \<^verbatim>\<open>contextData.messages.push(...)\<close>).
\<close>

datatype store_op =
    Get "string option"
  | Add "string option" message
  | Clean
  | Tick nat
  | Set_first addr message
  | Push addr message

fun apply_op :: "config \<Rightarrow> manager \<Rightarrow> store_op \<Rightarrow> manager" where
  "apply_op cfg m (Get t) = snd (getContext cfg t m)"
| "apply_op cfg m (Add t msg) = snd (addMessage cfg t msg m)"
| "apply_op cfg m Clean = cleanExpiredContexts cfg m"
| "apply_op cfg m (Tick n) = m\<lparr>now := now m + n\<rparr>"
| "apply_op cfg m (Set_first b msg) = set_first b msg m"
| "apply_op cfg m (Push b msg) = push_direct b msg m"

definition run :: "config \<Rightarrow> store_op list \<Rightarrow> manager \<Rightarrow> manager" where
  "run cfg ops m = foldl (apply_op cfg) m ops"

text \<open>An operation that does not write through the reference \<open>a\<close>.\<close>

fun foreign :: "addr \<Rightarrow> store_op \<Rightarrow> bool" where
  "foreign a (Set_first b msg) = (b \<noteq> a)"
| "foreign a (Push b msg) = (b \<noteq> a)"
| "foreign a _ = True"

text \<open>
  The shape of every store that can arise: registered addresses are allocated and hold
  an object, and nothing lives at or beyond the next unused address.
\<close>

definition wf :: "manager \<Rightarrow> bool" where
  "wf m = ((\<forall>tid a. contexts m tid = Some a \<longrightarrow> a < fresh m \<and> objects m a \<noteq> None) \<and>
           (\<forall>a. fresh m \<le> a \<longrightarrow> objects m a = None))"

definition unregistered :: "addr \<Rightarrow> manager \<Rightarrow> bool" where
  "unregistered a m = (wf m \<and> a < fresh m \<and> (\<forall>tid. contexts m tid \<noteq> Some a))"

text \<open>
  A history within the bound: not empty, at most \<^verbatim>\<open>MAX_CONTEXT_MESSAGES + 1\<close> long, the
  system message first. \<open>bounded\<close> says so of every registered context.
\<close>

definition within_bound :: "config \<Rightarrow> message list \<Rightarrow> bool" where
  "within_bound cfg ms =
     (ms \<noteq> [] \<and> int (length ms) \<le> MAX_CONTEXT_MESSAGES cfg + 1 \<and> role (hd ms) = ''system'')"

definition bounded :: "config \<Rightarrow> manager \<Rightarrow> bool" where
  "bounded cfg m =
     (\<forall>tid a c. contexts m tid = Some a \<longrightarrow> objects m a = Some c \<longrightarrow> within_bound cfg (messages c))"

text \<open>
  How a request ends on the channel. The operations a handler appends to the channel's
  record are read from the left: data frames, then either nothing (the channel is left
  alone), or the sentinel and \<^verbatim>\<open>end()\<close>, or an error frame and \<^verbatim>\<open>end()\<close>. Any other
  sequence (two terminal frames, a frame after \<^verbatim>\<open>end()\<close>, a sentinel without \<^verbatim>\<open>end()\<close>)
  has no outcome.
\<close>

datatype outcome = Completed | Failed string | Abandoned

fun is_data :: "sse_op \<Rightarrow> bool" where
  "is_data (Send (Data c)) = True"
| "is_data _ = False"

fun outcome_of :: "sse_op list \<Rightarrow> outcome option" where
  "outcome_of [] = Some Abandoned"
| "outcome_of [Send Done, End] = Some Completed"
| "outcome_of [Send (Error_frame e), End] = Some (Failed e)"
| "outcome_of (Send (Data c) # ops) = outcome_of ops"
| "outcome_of _ = None"


text \<open>The calls on the channel that threw while a request took the world from \<open>w\<close> to \<open>w'\<close>.\<close>

definition thrown :: "world \<Rightarrow> world \<Rightarrow> sse_op list" where
  "thrown w w' = drop (length (sse_thrown (wire w))) (sse_thrown (wire w'))"


text \<open>A channel on which no call still to come throws.\<close>

definition reliable :: "channel \<Rightarrow> bool" where
  "reliable ch = list_all (\<lambda>r. r = Returns) (sse_script ch)"

text \<open>
  \<open>data_ext ch ch'\<close>: from \<open>ch\<close> to \<open>ch'\<close> only data frames were written, whether the call
  went through or threw, and nothing at all was called if \<open>ch\<close> was closed.
\<close>

definition data_ext :: "channel \<Rightarrow> channel \<Rightarrow> bool" where
  "data_ext ch ch' =
     ((\<exists>ds. sse_log ch' = sse_log ch @ ds \<and> list_all is_data ds) \<and>
      (\<exists>ts. sse_thrown ch' = sse_thrown ch @ ts \<and> list_all is_data ts) \<and>
      (sse_closed ch \<longrightarrow> ch' = ch))"


text \<open>
  An item of the stream that carries content (\<^verbatim>\<open>if (content)\<close> holds for it), the content
  it carries, and the text the relay of the context-manager service accumulates from a
  provider's answer on a given channel.
\<close>

fun bearing :: "item \<Rightarrow> bool" where
  "bearing (Chunk c) = (or_empty (delta_content c) \<noteq> [])"
| "bearing _ = False"

fun content_of :: "item \<Rightarrow> string" where
  "content_of (Chunk c) = or_empty (delta_content c)"
| "content_of _ = []"










text \<open>
  The argument fragments a stretch of the stream delivers, in arrival order: one for
  every chunk with \<^verbatim>\<open>delta.tool_calls\<close>, read from its first entry as the loop does. An
  item that makes the iteration throw is told by \<open>throws\<close>.
\<close>

fun fragments :: "item list \<Rightarrow> string list" where
  "fragments [] = []"
| "fragments (Chunk c # es) =
     (case delta_tool_calls c of
        Some (d # ds) \<Rightarrow> fragment d # fragments es
      | _ \<Rightarrow> fragments es)"
| "fragments (x # es) = fragments es"

fun throws :: "item \<Rightarrow> bool" where
  "throws (Throw e) = True"
| "throws _ = False"

text \<open>
  \<open>follows_tool_call E tc r\<close>: the request \<open>r\<close> is a follow-up for the invocation \<open>tc\<close>,
  its last two messages being the assistant message with the invocation and the tool
  message with the result of running it.
\<close>

definition follows_tool_call :: "'a tool_env \<Rightarrow> tool_call \<Rightarrow> request \<Rightarrow> bool" where
  "follows_tool_call E tc r =
     (req_stream r \<and> \<not> req_tools r \<and> 2 \<le> length (req_messages r) \<and>
      last (butlast (req_messages r)) = assistant_tool_message tc \<and>
      last (req_messages r) = tool_result_message tc (handleFunctionCall E (tc_function tc)))"

text \<open>
  The documents \<^verbatim>\<open>enhanceSystemMessage\<close> keeps for a query whose embedding is \<open>q\<close>, and the
  corpus documents that score at or above the threshold, in corpus order.
\<close>

definition kept :: "'v rag_system \<Rightarrow> rag_config \<Rightarrow> 'v \<Rightarrow> 'v scored_document list" where
  "kept rag rc q = relevant rc (map (score rag q) (documents rag))"

definition qualifying :: "'v rag_system \<Rightarrow> rag_config \<Rightarrow> 'v \<Rightarrow> 'v scored_document list" where
  "qualifying rag rc q =
     filter (\<lambda>d. similarityThreshold rc \<le> similarity d) (map (score rag q) (documents rag))"

section \<open>Concrete inputs\<close>

definition example_config :: config where
  "example_config = \<lparr>DEFAULT_PROMPT = ''p'', MAX_CONTEXT_MESSAGES = 10, CONTEXT_EXPIRY_HOURS = 10\<rparr>"

text \<open>\<^verbatim>\<open>MAX_CONTEXT_MESSAGES=0\<close> in the environment.\<close>

definition zero_config :: config where
  "zero_config = \<lparr>DEFAULT_PROMPT = ''p'', MAX_CONTEXT_MESSAGES = 0, CONTEXT_EXPIRY_HOURS = 10\<rparr>"

definition content_chunk :: "string \<Rightarrow> chunk" where
  "content_chunk s = \<lparr>delta_tool_calls = None, finish_reason = None, delta_content = Some s\<rparr>"

definition tool_chunk :: "string \<Rightarrow> string \<Rightarrow> string \<Rightarrow> chunk" where
  "tool_chunk i n a =
     \<lparr>delta_tool_calls = Some [\<lparr>tcd_id = Some i, tcd_type = Some ''function'',
                                 tcd_function = Some \<lparr>fd_name = Some n, fd_arguments = Some a\<rparr>\<rparr>],
      finish_reason = None, delta_content = None\<rparr>"

definition finish_chunk :: chunk where
  "finish_chunk =
     \<lparr>delta_tool_calls = None, finish_reason = Some ''tool_calls'', delta_content = None\<rparr>"

definition open_channel :: channel where
  "open_channel = \<lparr>sse_closed = False, sse_log = [], sse_thrown = [], sse_script = []\<rparr>"

definition closed_channel :: channel where
  "closed_channel = \<lparr>sse_closed = True, sse_log = [], sse_thrown = [], sse_script = []\<rparr>"




definition start :: "manager \<Rightarrow> world" where
  "start m = \<lparr>manager = m, wire = open_channel, requests = []\<rparr>"

definition streams :: "item list \<Rightarrow> answer" where
  "streams items = \<lparr>client_left = False, reply = Stream items\<rparr>"

definition user_says :: "string \<Rightarrow> message" where
  "user_says s = plain ''user'' (Some s)"

text \<open>A store in which session \<open>s1\<close> exists; its context is at address 0.\<close>

definition store_s1 :: manager where
  "store_s1 = snd (getContext example_config (Some ''s1'') (new_manager 0))"

text \<open>The client leaves while the call is pending; the provider then streams two deltas.\<close>

definition left_then_streams :: "item list \<Rightarrow> answer" where
  "left_then_streams items = \<lparr>client_left = True, reply = Stream items\<rparr>"





text \<open>
  A JSON library that accepts one text, a weather API that always answers, and a
  serializer that writes \<^verbatim>\<open>{"error":"..."}\<close> for an error object.
\<close>

definition example_env :: "string tool_env" where
  \<open>example_env =
     \<lparr>JSON_parse = (\<lambda>s. if s = ''{"location":"Beijing"}'' then Inr ''Beijing''
                         else Inl ''Unexpected end of JSON input''),
      getWeather = (\<lambda>a. Inr ''sunny''),
      JSON_stringify = (\<lambda>r. case r of Error_object e \<Rightarrow> ''{"error":"'' @ e @ ''"}''
                                   | Weather x \<Rightarrow> x)\<rparr>\<close>

definition tools_request :: "string option \<Rightarrow> addr \<Rightarrow> item list \<Rightarrow> string tool_request" where
  "tools_request taskId a followUp =
     \<lparr>tr_env = example_env, tr_cfg = example_config, tr_taskId = taskId, tr_model = ''m'',
      tr_contextData = a, tr_followUp = streams followUp\<rparr>"

text \<open>The invocation of \<^verbatim>\<open>get_weather\<close> in three fragments, then the finish marker.\<close>

definition weather_stream :: "item list" where
  \<open>weather_stream =
     [Chunk (tool_chunk ''c1'' ''get_weather'' ''{"loc''),
      Chunk (tool_chunk [] [] ''ation":"''),
      Chunk (tool_chunk [] [] ''Beijing"}''),
      Chunk finish_chunk]\<close>

definition weather_call :: tool_call where
  \<open>weather_call =
     \<lparr>tc_id = ''c1'', tc_type = ''function'',
      tc_function = \<lparr>fn_name = ''get_weather'', fn_arguments = ''{"location":"Beijing"}''\<rparr>\<rparr>\<close>

text \<open>The store after \<^verbatim>\<open>main\<close> has folded one user message into session \<open>s1\<close>.\<close>

definition store_asked :: manager where
  "store_asked = snd (fold_messages example_config (Some ''s1'') [user_says ''weather?''] (new_manager 0))"

text \<open>The context \<^verbatim>\<open>main\<close> builds for the same message when no task id is supplied.\<close>

definition store_anonymous :: manager where
  "store_anonymous = snd (fold_messages example_config None [user_says ''weather?''] (new_manager 0))"

text \<open>An invocation of a tool that is not registered, with arguments that do not parse.\<close>

definition unknown_call :: fn_call where
  \<open>unknown_call = \<lparr>fn_name = ''get_time'', fn_arguments = ''{"zone'' \<rparr>\<close>

text \<open>The same invocation as the provider streams it.\<close>

definition unknown_stream :: "item list" where
  \<open>unknown_stream = [Chunk (tool_chunk ''c2'' ''get_time'' ''{"zone''), Chunk finish_chunk]\<close>

text \<open>An invocation of the registered tool with the same unparsable arguments.\<close>

definition bad_weather_call :: fn_call where
  \<open>bad_weather_call = \<lparr>fn_name = ''get_weather'', fn_arguments = ''{"zone'' \<rparr>\<close>

text \<open>The loop state when the finish marker of the unregistered invocation arrives.\<close>

definition collected_unknown :: loop_state where
  \<open>collected_unknown =
     \<lparr>assistantResponse = [], collectingToolCall = True,
      toolCallData = Some \<lparr>tc_id = ''c2'', tc_type = ''function'',
                            tc_function = \<lparr>fn_name = ''get_time'', fn_arguments = []\<rparr>\<rparr>,
      accumulatedArguments = ''{"zone'' \<rparr>\<close>

text \<open>
  A corpus of four documents whose embedding is their score against any query; the
  second and the fourth tie.
\<close>

definition doc :: "string \<Rightarrow> real \<Rightarrow> real document" where
  "doc t s = \<lparr>doc_id = t, title = t, doc_content = ''c'', embedding = s\<rparr>"

definition example_rag :: "real rag_system" where
  "example_rag =
     \<lparr>documents = [doc ''A'' 0.5, doc ''B'' 0.8, doc ''C'' 0.9, doc ''D'' 0.8],
      getEmbedding = (\<lambda>query. if query = [] then Inl ''no input'' else Inr 0),
      cosineSimilarity = (\<lambda>q e. e)\<rparr>"

definition example_rag_config :: "real \<Rightarrow> int \<Rightarrow> rag_config" where
  "example_rag_config threshold n =
     \<lparr>rag_enabled = True, similarityThreshold = threshold, maxDocuments = n,
      text_heading = ''H'', text_label = ''D'', text_separator = '':'', text_instruction = ''I''\<rparr>"

section \<open>The store: registered and unregistered contexts\<close>

lemma wf_registered: "wf m \<Longrightarrow> contexts m tid = Some a \<Longrightarrow> a < fresh m \<and> objects m a \<noteq> None"
  unfolding wf_def by blast

lemma wf_beyond: "wf m \<Longrightarrow> fresh m \<le> a \<Longrightarrow> objects m a = None"
  unfolding wf_def by blast

lemma wf_new_manager: "wf (new_manager t)"
  by (simp add: wf_def new_manager_def)

lemma wf_getContext: "wf m \<Longrightarrow> wf (snd (getContext cfg t m))"
  by (auto simp: wf_def getContext_def alloc_def touch_def less_Suc_eq
           split: option.splits if_splits)

lemma unregistered_getContext:
  assumes "unregistered a m" "getContext cfg t m = (b, m1)"
  shows "unregistered a m1 \<and> b \<noteq> a \<and> objects m1 a = objects m a"
proof -
  from assms(1) have w: "wf m" and lt: "a < fresh m" and nr: "\<forall>tid. contexts m tid \<noteq> Some a"
    unfolding unregistered_def by simp_all
  have w1: "wf m1" using wf_getContext[OF w, of cfg t] assms(2) by simp
  have f: "fresh m \<le> fresh m1" using assms(2)
    by (auto simp: getContext_def alloc_def touch_def split: option.splits if_splits)
  have b: "b \<noteq> a" using assms(2) lt nr
    by (auto simp: getContext_def alloc_def touch_def split: option.splits if_splits)
  have c: "\<forall>tid. contexts m1 tid \<noteq> Some a" using assms(2) lt nr
    by (auto simp: getContext_def alloc_def touch_def split: option.splits if_splits)
  have o: "objects m1 a = objects m a" using assms(2) lt nr
    by (auto simp: getContext_def alloc_def touch_def split: option.splits if_splits)
  show ?thesis using w1 f b c o lt unfolding unregistered_def by simp
qed

lemma addMessage_frame:
  assumes "truthy t" "getContext cfg t m = (b, m1)"
  shows "fresh (snd (addMessage cfg t msg m)) = fresh m1 \<and>
         contexts (snd (addMessage cfg t msg m)) = contexts m1 \<and>
         now (snd (addMessage cfg t msg m)) = now m1 \<and>
         (\<forall>x. x \<noteq> b \<longrightarrow> objects (snd (addMessage cfg t msg m)) x = objects m1 x) \<and>
         (objects m1 b = None \<longleftrightarrow> objects (snd (addMessage cfg t msg m)) b = None)"
  using assms by (auto simp: addMessage_def split: option.splits)

lemma wf_addMessage:
  assumes "wf m"
  shows "wf (snd (addMessage cfg t msg m))"
proof (cases "truthy t")
  case False
  with assms show ?thesis by (simp add: addMessage_def)
next
  case True
  obtain b m1 where g: "getContext cfg t m = (b, m1)" by (cases "getContext cfg t m")
  let ?m2 = "snd (addMessage cfg t msg m)"
  from addMessage_frame[OF True g, of msg]
  have f: "fresh ?m2 = fresh m1" and c: "contexts ?m2 = contexts m1"
    and o: "\<forall>x. x \<noteq> b \<longrightarrow> objects ?m2 x = objects m1 x"
    and n: "objects m1 b = None \<longleftrightarrow> objects ?m2 b = None" by simp_all
  have w1: "wf m1" using wf_getContext[OF assms, of cfg t] g by simp
  show "wf ?m2"
    unfolding wf_def
  proof (intro conjI allI impI)
    fix tid x assume r: "contexts ?m2 tid = Some x"
    then show "x < fresh ?m2" using wf_registered[OF w1] c f by simp
    from r have "objects m1 x \<noteq> None" using wf_registered[OF w1] c by simp
    then show "objects ?m2 x \<noteq> None" using o n by (cases "x = b") simp_all
  next
    fix x assume "fresh ?m2 \<le> x"
    then have "objects m1 x = None" using wf_beyond[OF w1] f by simp
    then show "objects ?m2 x = None" using o n by (cases "x = b") simp_all
  qed
qed

lemma unregistered_addMessage:
  assumes "unregistered a m"
  shows "unregistered a (snd (addMessage cfg t msg m)) \<and>
         objects (snd (addMessage cfg t msg m)) a = objects m a"
proof (cases "truthy t")
  case False
  with assms show ?thesis by (simp add: addMessage_def)
next
  case True
  obtain b m1 where g: "getContext cfg t m = (b, m1)" by (cases "getContext cfg t m")
  let ?m2 = "snd (addMessage cfg t msg m)"
  from addMessage_frame[OF True g, of msg]
  have f: "fresh ?m2 = fresh m1" and c: "contexts ?m2 = contexts m1"
    and o: "\<forall>x. x \<noteq> b \<longrightarrow> objects ?m2 x = objects m1 x" by simp_all
  from unregistered_getContext[OF assms g]
  have u: "unregistered a m1" and ne: "b \<noteq> a" and same: "objects m1 a = objects m a"
    by simp_all
  from assms have "wf m" unfolding unregistered_def by simp
  then have "wf ?m2" by (rule wf_addMessage)
  then have "unregistered a ?m2"
    using u f c unfolding unregistered_def by simp
  moreover have "objects ?m2 a = objects m a" using o ne same by simp
  ultimately show ?thesis by simp
qed

lemma unregistered_clean:
  "unregistered a m \<Longrightarrow> unregistered a (cleanExpiredContexts cfg m) \<and>
     objects (cleanExpiredContexts cfg m) a = objects m a"
  by (auto simp: unregistered_def wf_def cleanExpiredContexts_def split: option.splits if_splits)

lemma unregistered_set_first:
  "unregistered a m \<Longrightarrow> unregistered a (set_first b msg m) \<and>
     (b \<noteq> a \<longrightarrow> objects (set_first b msg m) a = objects m a)"
  by (auto simp: unregistered_def wf_def set_first_def split: option.splits)

lemma unregistered_push_direct:
  "unregistered a m \<Longrightarrow> unregistered a (push_direct b msg m) \<and>
     (b \<noteq> a \<longrightarrow> objects (push_direct b msg m) a = objects m a)"
  by (auto simp: unregistered_def wf_def push_direct_def split: option.splits)

lemma unregistered_apply_op:
  assumes "unregistered a m"
  shows "unregistered a (apply_op cfg m x) \<and>
         (foreign a x \<longrightarrow> objects (apply_op cfg m x) a = objects m a)"
proof (cases x)
  case (Get t)
  then show ?thesis
    using unregistered_getContext[OF assms, of cfg t "fst (getContext cfg t m)" "snd (getContext cfg t m)"]
    by simp
next
  case (Add t msg)
  then show ?thesis using unregistered_addMessage[OF assms, of cfg t msg] by simp
next
  case Clean
  then show ?thesis using unregistered_clean[OF assms, of cfg] by simp
next
  case (Tick n)
  then show ?thesis using assms by (simp add: unregistered_def wf_def)
next
  case (Set_first b msg)
  then show ?thesis using unregistered_set_first[OF assms, of b msg] by simp
next
  case (Push b msg)
  then show ?thesis using unregistered_push_direct[OF assms, of b msg] by simp
qed

lemma unregistered_run:
  "unregistered a m \<Longrightarrow> unregistered a (run cfg ops m) \<and>
     (list_all (foreign a) ops \<longrightarrow> objects (run cfg ops m) a = objects m a)"
proof (induction ops arbitrary: m)
  case Nil
  then show ?case by (simp add: run_def)
next
  case (Cons x xs)
  from unregistered_apply_op[OF Cons.prems, of cfg x]
  have u: "unregistered a (apply_op cfg m x)"
    and o: "foreign a x \<longrightarrow> objects (apply_op cfg m x) a = objects m a" by simp_all
  from Cons.IH[OF u] o show ?case by (simp add: run_def)
qed

lemma wf_apply_op: "wf m \<Longrightarrow> wf (apply_op cfg m x)"
proof (cases x)
  case (Get t)
  then show "wf m \<Longrightarrow> ?thesis" using wf_getContext[of m cfg t] by simp
next
  case (Add t msg)
  then show "wf m \<Longrightarrow> ?thesis" using wf_addMessage[of m cfg t msg] by simp
next
  case Clean
  then show "wf m \<Longrightarrow> ?thesis"
    by (auto simp: wf_def cleanExpiredContexts_def split: option.splits if_splits)
next
  case (Tick n)
  then show "wf m \<Longrightarrow> ?thesis" by (simp add: wf_def)
next
  case (Set_first b msg)
  then show "wf m \<Longrightarrow> ?thesis" by (auto simp: wf_def set_first_def split: option.splits)
next
  case (Push b msg)
  then show "wf m \<Longrightarrow> ?thesis" by (auto simp: wf_def push_direct_def split: option.splits)
qed

lemma wf_run: "wf m \<Longrightarrow> wf (run cfg ops m)"
  unfolding run_def by (induction ops arbitrary: m) (simp_all add: wf_apply_op)

lemma unidentified_fresh:
  assumes "wf m" "\<not> truthy t"
  shows "contexts (snd (getContext cfg t m)) = contexts m \<and>
         objects m (fst (getContext cfg t m)) = None \<and>
         objects (snd (getContext cfg t m)) (fst (getContext cfg t m)) = Some (new_context cfg (now m)) \<and>
         unregistered (fst (getContext cfg t m)) (snd (getContext cfg t m))"
proof -
  from assms(2) have g: "getContext cfg t m = alloc (new_context cfg (now m)) m"
    by (auto simp: getContext_def truthy_def split: option.splits)
  have "\<forall>tid. contexts m tid \<noteq> Some (fresh m)"
    using wf_registered[OF assms(1)] by fastforce
  moreover have "wf (snd (alloc (new_context cfg (now m)) m))" using assms(1)
    unfolding wf_def alloc_def by (auto simp: less_Suc_eq)
  moreover have "objects m (fresh m) = None" using wf_beyond[OF assms(1)] by simp
  ultimately show ?thesis unfolding unregistered_def g by (simp add: alloc_def)
qed

text \<open>
  C8. A context resolved with a falsy task id is a new object holding only the system
  message, and it is never registered. For every store \<open>m\<close> that a sequence of
  operations \<open>before\<close> can produce, resolving with a falsy \<open>t\<close> leaves the map of
  registered contexts unchanged and returns an address \<open>a\<close> that was unused. Whatever
  happens \<open>later\<close> (resolves, appends, sweeps, writes through any reference, also through
  \<open>a\<close> itself), no task id maps to \<open>a\<close>, no resolve with any task id (or none) returns
  \<open>a\<close>, another caller resolving with a falsy id gets a context holding only the system
  message, and as long as nobody writes through \<open>a\<close> itself the object at \<open>a\<close> stays as
  it was.
\<close>

theorem unidentified_session_private:
  assumes "\<not> truthy t"
    and "m = run cfg before (new_manager t0)"
    and "a = fst (getContext cfg t m)"
    and "m1 = snd (getContext cfg t m)"
    and "m2 = run cfg later m1"
  shows "contexts m1 = contexts m \<and>
         objects m a = None \<and>
         history m1 a = [plain ''system'' (Some (DEFAULT_PROMPT cfg))] \<and>
         (\<forall>tid. contexts m2 tid \<noteq> Some a) \<and>
         (\<forall>t'. fst (getContext cfg t' m2) \<noteq> a) \<and>
         (\<forall>t'. \<not> truthy t' \<longrightarrow>
            history (snd (getContext cfg t' m2)) (fst (getContext cfg t' m2)) =
              [plain ''system'' (Some (DEFAULT_PROMPT cfg))]) \<and>
         (list_all (foreign a) later \<longrightarrow> objects m2 a = objects m1 a)"
proof -
  have w: "wf m" unfolding assms(2) by (rule wf_run[OF wf_new_manager])
  from unidentified_fresh[OF w assms(1), of cfg]
  have c: "contexts m1 = contexts m" and f: "objects m a = None"
    and o: "objects m1 a = Some (new_context cfg (now m))" and u: "unregistered a m1"
    unfolding assms(3,4) by simp_all
  from unregistered_run[OF u, of cfg later]
  have u2: "unregistered a m2"
    and k: "list_all (foreign a) later \<longrightarrow> objects m2 a = objects m1 a"
    unfolding assms(5) by simp_all
  have h: "history m1 a = [plain ''system'' (Some (DEFAULT_PROMPT cfg))]"
    using o by (simp add: history_def new_context_def)
  have r: "\<forall>tid. contexts m2 tid \<noteq> Some a" using u2 unfolding unregistered_def by simp
  have g: "\<forall>t'. fst (getContext cfg t' m2) \<noteq> a"
  proof
    fix t'
    show "fst (getContext cfg t' m2) \<noteq> a"
      using unregistered_getContext[OF u2, of cfg t' "fst (getContext cfg t' m2)" "snd (getContext cfg t' m2)"]
      by simp
  qed
  have w2: "wf m2" using u2 unfolding unregistered_def by simp
  have n: "\<forall>t'. \<not> truthy t' \<longrightarrow>
            history (snd (getContext cfg t' m2)) (fst (getContext cfg t' m2)) =
              [plain ''system'' (Some (DEFAULT_PROMPT cfg))]"
  proof (intro allI impI)
    fix t' assume "\<not> truthy t'"
    from unidentified_fresh[OF w2 this, of cfg]
    show "history (snd (getContext cfg t' m2)) (fst (getContext cfg t' m2)) =
              [plain ''system'' (Some (DEFAULT_PROMPT cfg))]"
      by (simp add: history_def new_context_def)
  qed
  show ?thesis using c f h r g n k by blast
qed

text \<open>
  At a concrete store: session \<open>s1\<close> exists, a caller resolves without a task id and gets
  address 1, pushes two messages through its reference while another caller appends to
  session \<open>s2\<close>; a third caller resolving without a task id sees only the system message.
\<close>

theorem unidentified_session_private_witness:
  "\<not> truthy None \<and>
   (let m = run example_config [Add (Some ''s1'') (user_says ''hi'')] (new_manager 0);
        a = fst (getContext example_config None m);
        m1 = snd (getContext example_config None m);
        m2 = run example_config
               [Push a (user_says ''mine''), Add (Some ''s2'') (user_says ''yo''),
                Push a (user_says ''again'')] m1
    in a = 1 \<and> contexts m1 = contexts m \<and> objects m a = None \<and>
       history m1 a = [plain ''system'' (Some ''p'')] \<and>
       history m2 a = [plain ''system'' (Some ''p''), user_says ''mine'', user_says ''again''] \<and>
       (\<forall>tid. contexts m2 tid \<noteq> Some a) \<and>
       (\<forall>t'. fst (getContext example_config t' m2) \<noteq> a) \<and>
       history (snd (getContext example_config None m2)) (fst (getContext example_config None m2)) =
         [plain ''system'' (Some ''p'')])"
proof -
  have nt: "\<not> truthy None" by (simp add: truthy_def)
  have a: "fst (getContext example_config None
             (run example_config [Add (Some ''s1'') (user_says ''hi'')] (new_manager 0))) = 1"
    by (simp add: run_def example_config_def new_manager_def addMessage_def getContext_def
          alloc_def touch_def truthy_def)
  have h2: "history (run example_config
               [Push 1 (user_says ''mine''), Add (Some ''s2'') (user_says ''yo''),
                Push 1 (user_says ''again'')]
               (snd (getContext example_config None
                  (run example_config [Add (Some ''s1'') (user_says ''hi'')] (new_manager 0))))) 1 =
            [plain ''system'' (Some ''p''), user_says ''mine'', user_says ''again'']"
    by (simp add: run_def example_config_def new_manager_def addMessage_def getContext_def
          alloc_def touch_def truthy_def history_def push_direct_def new_context_def)
  show ?thesis
    using nt a h2 unidentified_session_private[OF nt refl refl refl refl, of example_config
        "[Add (Some ''s1'') (user_says ''hi'')]" 0
        "[Push 1 (user_says ''mine''), Add (Some ''s2'') (user_says ''yo''),
          Push 1 (user_says ''again'')]"]
    by (simp add: Let_def example_config_def)
qed

section \<open>The bound on the history\<close>

text \<open>
  C2. The history is meant never to exceed \<^verbatim>\<open>MAX_CONTEXT_MESSAGES + 1\<close> messages. With
  \<^verbatim>\<open>MAX_CONTEXT_MESSAGES = 0\<close> the first append to a new session \<open>s\<close> already breaks the
  bound: after the push the length is 2, which exceeds 1, so the history is trimmed to
  the system message followed by \<^verbatim>\<open>messages.slice(-0)\<close>, and \<^verbatim>\<open>slice(-0)\<close> is the whole
  array. The history becomes system, system, user: three messages where one is allowed.
\<close>

theorem addMessage_exceeds_bound_when_max_is_zero:
  "history (snd (addMessage zero_config (Some ''s'') (user_says ''hi'') (new_manager 0))) 0 =
     [plain ''system'' (Some ''p''), plain ''system'' (Some ''p''), user_says ''hi''] \<and>
   int (length (history (snd (addMessage zero_config (Some ''s'') (user_says ''hi'') (new_manager 0))) 0))
     > MAX_CONTEXT_MESSAGES zero_config + 1 \<and>
   contexts (snd (addMessage zero_config (Some ''s'') (user_says ''hi'') (new_manager 0))) ''s'' = Some 0"
  by (simp add: zero_config_def new_manager_def addMessage_def getContext_def alloc_def touch_def
        truthy_def history_def new_context_def push_and_trim_def js_slice_from_def)

text \<open>
  For a limit of at least one the bound does hold. One append keeps a history within the
  bound and keeps its first message; when the history is full, the result is the first
  message followed by the last \<^verbatim>\<open>MAX_CONTEXT_MESSAGES\<close> of the others with the new one.
\<close>

lemma push_and_trim_within_bound:
  assumes "1 \<le> MAX_CONTEXT_MESSAGES cfg" "within_bound cfg ms"
  shows "within_bound cfg (push_and_trim cfg msg ms) \<and> hd (push_and_trim cfg msg ms) = hd ms"
  using assms
  by (cases ms) (auto simp: within_bound_def push_and_trim_def js_slice_from_def Let_def)

lemma push_and_trim_exact:
  assumes "1 \<le> MAX_CONTEXT_MESSAGES cfg" "int (length others) \<le> MAX_CONTEXT_MESSAGES cfg"
  shows "push_and_trim cfg msg (s # others) =
           (if int (length others) = MAX_CONTEXT_MESSAGES cfg then s # tl others @ [msg]
            else s # others @ [msg])"
  using assms
  by (cases others) (auto simp: push_and_trim_def js_slice_from_def Let_def)

lemma within_bound_new_context:
  "0 \<le> MAX_CONTEXT_MESSAGES cfg \<Longrightarrow> within_bound cfg (messages (new_context cfg t))"
  by (simp add: within_bound_def new_context_def plain_def)

lemma bounded_getContext:
  assumes "0 \<le> MAX_CONTEXT_MESSAGES cfg" "bounded cfg m"
  shows "bounded cfg (snd (getContext cfg t m))"
  using assms within_bound_new_context[OF assms(1)]
  unfolding bounded_def getContext_def alloc_def touch_def
  by (auto split: option.splits if_splits)

lemma bounded_addMessage:
  assumes "1 \<le> MAX_CONTEXT_MESSAGES cfg" "bounded cfg m"
  shows "bounded cfg (snd (addMessage cfg t msg m))"
proof (cases "truthy t")
  case False
  with assms show ?thesis by (simp add: addMessage_def)
next
  case True
  obtain b m1 where g: "getContext cfg t m = (b, m1)" by (cases "getContext cfg t m")
  have b1: "bounded cfg m1" using bounded_getContext[of cfg m t] assms g by simp
  from True obtain tid where t: "t = Some tid" "tid \<noteq> []"
    by (auto simp: truthy_def split: option.splits)
  have reg: "contexts m1 tid = Some b" using g t
    by (auto simp: getContext_def alloc_def touch_def split: option.splits if_splits)
  show ?thesis
  proof (cases "objects m1 b")
    case None
    then show ?thesis using True g b1 by (simp add: addMessage_def)
  next
    case (Some c)
    have wb: "within_bound cfg (messages c)" using b1 reg Some unfolding bounded_def by blast
    have m2: "snd (addMessage cfg t msg m) =
        m1\<lparr>objects := (objects m1)(b \<mapsto> c\<lparr>messages := push_and_trim cfg msg (messages c)\<rparr>)\<rparr>"
      using True g Some by (simp add: addMessage_def)
    show ?thesis unfolding m2 bounded_def
      using b1 push_and_trim_within_bound[OF assms(1) wb, of msg]
      by (auto simp: bounded_def)
  qed
qed

lemma appends_keep_bound:
  assumes "1 \<le> MAX_CONTEXT_MESSAGES cfg"
    and "bounded cfg m"
    and "m' = foldl (\<lambda>s (t, msg). snd (addMessage cfg t msg s)) m calls"
    and "contexts m' tid = Some a"
    and "objects m' a = Some c"
  shows "int (length (messages c)) \<le> MAX_CONTEXT_MESSAGES cfg + 1 \<and> messages c \<noteq> [] \<and>
         role (hd (messages c)) = ''system''"
proof -
  have "bounded cfg (foldl (\<lambda>s (t, msg). snd (addMessage cfg t msg s)) m calls)"
    using assms(2)
  proof (induction calls arbitrary: m)
    case Nil
    then show ?case by simp
  next
    case (Cons x xs)
    obtain t msg where x: "x = (t, msg)" by (cases x)
    show ?case using Cons.IH[OF bounded_addMessage[OF assms(1) Cons.prems, of t msg]] x by simp
  qed
  then show ?thesis using assms(3,4,5) unfolding bounded_def within_bound_def by blast
qed

section \<open>How a request ends\<close>

lemma store_anonymous_history:
  "history store_anonymous 0 = [plain ''system'' (Some ''p''), user_says ''weather?'']"
  by (simp add: store_anonymous_def fold_messages_def getContext_def alloc_def new_context_def
        example_config_def new_manager_def truthy_def user_says_def plain_def push_direct_def
        history_def)


lemma sse_send_cases:
  assumes "sse_send f ch = (r, ch1)"
  shows "(r = None \<longrightarrow> sse_closed ch1 = sse_closed ch) \<and>
         sse_log ch1 = sse_log ch @ (case r of None \<Rightarrow> [Send f] | Some e \<Rightarrow> []) \<and>
         sse_thrown ch1 = sse_thrown ch @ (case r of None \<Rightarrow> [] | Some e \<Rightarrow> [Send f])"
  using assms
  by (auto simp: sse_send_def next_write_def split: list.splits write_result.splits)


lemma data_ext_refl: "data_ext ch ch"
  by (simp add: data_ext_def)

lemma data_ext_trans: "data_ext a b \<Longrightarrow> data_ext b c \<Longrightarrow> data_ext a c"
  unfolding data_ext_def
  by (metis append.assoc list_all_append)

lemma data_ext_closes: "data_ext ch (client_closes ch)"
  by (simp add: data_ext_def client_closes_def)

lemma data_ext_send:
  assumes "\<not> sse_closed ch" "sse_send (Data c) ch = (r, ch1)"
  shows "data_ext ch ch1"
  using assms(1) sse_send_cases[OF assms(2)]
  by (cases r) (simp_all add: data_ext_def)


lemma relay_data_ext:
  "relay es acc ch = (err, text, ch', rest) \<Longrightarrow> data_ext ch ch'"
proof (induction es acc ch rule: relay.induct)
  case (1 acc ch)
  then show ?case by (simp add: data_ext_refl)
next
  case (2 es acc ch)
  then show ?case using data_ext_trans[OF data_ext_closes] by simp
next
  case (3 e es acc ch)
  then show ?case by (simp add: data_ext_refl)
next
  case (4 c es acc ch)
  show ?case
  proof (cases "or_empty (delta_content c) \<noteq> []")
    case True
    show ?thesis
    proof (cases "sse_closed ch")
      case True
      then show ?thesis using "4.prems" \<open>or_empty (delta_content c) \<noteq> []\<close>
        by (auto simp: data_ext_refl)
    next
      case isopen: False
      obtain r ch1 where s: "sse_send (Data c) ch = (r, ch1)" by (cases "sse_send (Data c) ch")
      note d = data_ext_send[OF isopen s]
      show ?thesis
      proof (cases r)
        case None
        from "4.prems" True isopen s None
        have "relay es (acc @ or_empty (delta_content c)) ch1 = (err, text, ch', rest)" by simp
        from "4.IH"(1)[OF True isopen s[symmetric] None this] d
        show ?thesis by (rule data_ext_trans[rotated])
      next
        case (Some e)
        then show ?thesis using "4.prems" True isopen s d by auto
      qed
    qed
  next
    case False
    then show ?thesis using 4 by auto
  qed
qed









lemma complete_tool_call_data_ext:
  assumes "complete_tool_call R ls w = (err, ls', w')"
  shows "data_ext (wire w) (wire w')"
proof (cases "toolCallData ls")
  case None
  then show ?thesis using assms by (auto simp: complete_tool_call_def data_ext_refl)
next
  case (Some tcd)
  define tc where "tc = tcd\<lparr>tc_function := (tc_function tcd)\<lparr>fn_arguments := accumulatedArguments ls\<rparr>\<rparr>"
  define m1 where "m1 = (if truthy (tr_taskId R)
                     then snd (addMessage (tr_cfg R) (tr_taskId R)
                            (tool_result_message tc (handleFunctionCall (tr_env R) (tc_function tc)))
                            (snd (addMessage (tr_cfg R) (tr_taskId R) (assistant_tool_message tc)
                               (manager w))))
                     else manager w)"
  define w1 where "w1 = await_call (tr_followUp R)
                      \<lparr>req_model = tr_model R,
                       req_messages = history m1 (tr_contextData R) @
                          [assistant_tool_message tc,
                           tool_result_message tc (handleFunctionCall (tr_env R) (tc_function tc))],
                       req_stream = True, req_tools = False\<rparr>
                      (w\<lparr>manager := m1\<rparr>)"
  have e1: "data_ext (wire w) (wire w1)"
    unfolding w1_def by (simp add: await_call_def data_ext_closes data_ext_refl)
  show ?thesis
  proof (cases "reply (tr_followUp R)")
    case (Rejects e)
    then have "w' = w1" using assms Some
      unfolding complete_tool_call_def w1_def m1_def tc_def by (simp add: Let_def)
    then show ?thesis using e1 by simp
  next
    case (Stream items)
    obtain e out ch rest where
      rl: "relay items (assistantResponse (ls\<lparr>toolCallData := Some tc\<rparr>)) (wire w1) = (e, out, ch, rest)"
      by (cases "relay items (assistantResponse (ls\<lparr>toolCallData := Some tc\<rparr>)) (wire w1)")
    have "wire w' = ch" using assms Some Stream rl
      unfolding complete_tool_call_def w1_def m1_def tc_def
      by (cases e) (auto simp: Let_def)
    then show ?thesis using data_ext_trans[OF e1 relay_data_ext[OF rl]] by simp
  qed
qed

lemma tool_relay_data_ext:
  "tool_relay R es ls w = (err, ls', w', rest) \<Longrightarrow> data_ext (wire w) (wire w')"
proof (induction R es ls w rule: tool_relay.induct)
  case (1 R ls w)
  then show ?case by (simp add: data_ext_refl)
next
  case (2 R es ls w)
  then show ?case using data_ext_trans[OF data_ext_closes[of "wire w"]] by simp
next
  case (3 R e es ls w)
  then show ?case by (simp add: data_ext_refl)
next
  case (4 R c es ls w)
  show ?case
  proof (cases "delta_tool_calls c")
    case (Some tcs)
    show ?thesis
    proof (cases tcs)
      case Nil
      then show ?thesis using "4.prems" Some by (auto simp: data_ext_refl)
    next
      case (Cons d ds)
      then show ?thesis using "4.IH"(3)[OF Some Cons] "4.prems" Some by simp
    qed
  next
    case None
    show ?thesis
    proof (cases "collectingToolCall ls \<and> finish_reason c = Some ''tool_calls''")
      case True
      obtain e l x where cc: "complete_tool_call R ls w = (e, l, x)"
        by (cases "complete_tool_call R ls w")
      then show ?thesis using "4.prems" None True complete_tool_call_data_ext[OF cc] by auto
    next
      case False
      show ?thesis
      proof (cases "or_empty (delta_content c) \<noteq> []")
        case True
        show ?thesis
        proof (cases "sse_closed (wire w)")
          case True
          then show ?thesis using "4.prems" None False \<open>or_empty (delta_content c) \<noteq> []\<close>
            by (auto simp: data_ext_refl)
        next
          case isopen: False
          obtain r ch1 where s: "sse_send (Data c) (wire w) = (r, ch1)"
            by (cases "sse_send (Data c) (wire w)")
          note d = data_ext_send[OF isopen s]
          show ?thesis
          proof (cases r)
            case no_throw: None
            from "4.prems" None False True isopen s no_throw
            have "tool_relay R es
                    (ls\<lparr>assistantResponse := assistantResponse ls @ or_empty (delta_content c)\<rparr>)
                    (w\<lparr>wire := ch1\<rparr>) = (err, ls', w', rest)" by simp
            from "4.IH"(1)[OF None False True isopen s[symmetric] no_throw this]
            have "data_ext ch1 (wire w')" by simp
            with d show ?thesis by (rule data_ext_trans)
          next
            case (Some e)
            then show ?thesis using "4.prems" None False True isopen s d by auto
          qed
        qed
      next
        case empty: False
        then show ?thesis using "4.IH"(2)[OF None False empty] "4.prems" None False by auto
      qed
    qed
  qed
qed









section \<open>A closed channel\<close>

lemma client_closes_closed: "sse_closed ch \<Longrightarrow> client_closes ch = ch"
  by (simp add: client_closes_def)

lemma relay_closed:
  assumes "sse_closed ch" "relay es acc ch = (err, out, ch', rest)"
  shows "ch' = ch \<and>
         (\<exists>read. es = read @ rest \<and> list_all (\<lambda>x. \<not> bearing x) (butlast read) \<and>
            out = acc @ concat (map content_of (filter bearing read)))"
  using assms
proof (induction es acc ch rule: relay.induct)
  case (1 acc ch)
  then show ?case by simp
next
  case (2 es acc ch)
  from 2 have r: "relay es acc ch = (err, out, ch', rest)" by (simp add: client_closes_closed)
  from "2.IH" r "2.prems"(1) have c: "ch' = ch" and
    ex: "\<exists>read. es = read @ rest \<and> list_all (\<lambda>x. \<not> bearing x) (butlast read) \<and>
            out = acc @ concat (map content_of (filter bearing read))"
    by (simp_all add: client_closes_closed)
  from ex obtain rd where rd: "es = rd @ rest" "list_all (\<lambda>x. \<not> bearing x) (butlast rd)"
    "out = acc @ concat (map content_of (filter bearing rd))" by blast
  show ?case using rd c by (intro conjI exI[of _ "Disconnect # rd"]) simp_all
next
  case (3 e es acc ch)
  then have "ch' = ch" "rest = es" "out = acc" by simp_all
  then show ?case by (intro conjI exI[of _ "[Throw e]"]) simp_all
next
  case (4 c es acc ch)
  show ?case
  proof (cases "or_empty (delta_content c) \<noteq> []")
    case True
    with 4 have "ch' = ch" "rest = es" "out = acc @ or_empty (delta_content c)" by simp_all
    then show ?thesis using True by (intro conjI exI[of _ "[Chunk c]"]) simp_all
  next
    case False
    from 4 False have r: "relay es acc ch = (err, out, ch', rest)" by simp
    from "4.IH"(2)[OF False "4.prems"(1) r] have c: "ch' = ch" and
      ex: "\<exists>read. es = read @ rest \<and> list_all (\<lambda>x. \<not> bearing x) (butlast read) \<and>
            out = acc @ concat (map content_of (filter bearing read))"
      by simp_all
    from ex obtain rd where rd: "es = rd @ rest" "list_all (\<lambda>x. \<not> bearing x) (butlast rd)"
      "out = acc @ concat (map content_of (filter bearing rd))" by blast
    show ?thesis using rd c False by (intro conjI exI[of _ "Chunk c # rd"]) simp_all
  qed
qed

lemma read_is_take: "es = rd @ rest \<Longrightarrow> rd = take (length es - length rest) es"
  by simp

lemma relay_after_closure:
  "relay pre acc ch = (None, out, ch1, rest1) \<Longrightarrow>
     sse_log (fst (snd (snd (relay (pre @ Disconnect # post) acc ch)))) = sse_log ch1"
proof (induction pre acc ch rule: relay.induct)
  case (1 acc ch)
  obtain e2 out2 ch2 rest2 where r: "relay post acc (client_closes ch) = (e2, out2, ch2, rest2)"
    by (cases "relay post acc (client_closes ch)")
  have "sse_closed (client_closes ch)" by (simp add: client_closes_def)
  from relay_closed[OF this r] have "ch2 = client_closes ch" by simp
  then show ?case using 1 r by (simp add: client_closes_def)
next
  case (2 es acc ch)
  then show ?case by simp
next
  case (3 e es acc ch)
  then show ?case by simp
next
  case (4 c es acc ch)
  show ?case
  proof (cases "or_empty (delta_content c) \<noteq> []")
    case True
    show ?thesis
    proof (cases "sse_closed ch")
      case True
      then show ?thesis using "4.prems" \<open>or_empty (delta_content c) \<noteq> []\<close> by simp
    next
      case isopen: False
      obtain r ch2 where s: "sse_send (Data c) ch = (r, ch2)" by (cases "sse_send (Data c) ch")
      show ?thesis
      proof (cases r)
        case None
        from "4.prems" True isopen s None
        have "relay es (acc @ or_empty (delta_content c)) ch2 = (None, out, ch1, rest1)" by simp
        from "4.IH"(1)[OF True isopen s[symmetric] None this]
        show ?thesis using True isopen s None by simp
      next
        case (Some e)
        then show ?thesis using "4.prems" True isopen s by simp
      qed
    qed
  next
    case False
    then show ?thesis using 4 by simp
  qed
qed

lemma closed_during_call:
  assumes "available" "\<not> sse_closed (wire w)" "model \<noteq> []" "client_left ans"
  shows "sse_log (wire (handleStreamingRequest cfg taskId model available contextData ans w)) =
         sse_log (wire w)"
proof -
  let ?w1 = "await_call ans \<lparr>req_model = model, req_messages = history (manager w) contextData,
                     req_stream = True, req_tools = False\<rparr> w"
  have c: "sse_closed (wire ?w1)" and l: "sse_log (wire ?w1) = sse_log (wire w)"
    using assms(4) by (simp_all add: await_call_def client_closes_def)
  show ?thesis
  proof (cases "reply ans")
    case (Rejects e)
    then show ?thesis using assms c l
      by (simp add: handleStreamingRequest_def primary_call_def catch_def send_error_def Let_def)
  next
    case (Stream items)
    obtain err out ch rest where r: "relay items [] (wire ?w1) = (err, out, ch, rest)"
      by (cases "relay items [] (wire ?w1)")
    from relay_closed[OF c r] have ch: "ch = wire ?w1" by simp
    show ?thesis using assms Stream r c l unfolding ch
      by (cases err)
         (simp_all add: handleStreamingRequest_def primary_call_def catch_def send_error_def
            send_done_def Let_def)
  qed
qed

text \<open>
  C7, as the code has it. Once the channel is closed nothing more is written to it. If
  the client closes the channel after the items \<open>pre\<close> of a stream, the record of the
  channel stays what it was when \<open>pre\<close> had been relayed, whatever arrives afterwards; a
  request during whose provider call the client left writes nothing at all; on a closed
  channel the relay loop and the main loop of the tools service leave the channel as it
  is, and neither the sentinel nor an error frame is sent. Reading does not stop at
  once, though: the loop checks \<^verbatim>\<open>sse.closed\<close> only when it holds a delta with content.
  Of the items \<open>es\<close> that arrive after the closure the relay loop reads on (\<open>es\<close> is split
  into the items read and the \<open>rest\<close> never read) up to the first delta with content,
  whose text is still added to the accumulated text, or up to the failure or the end of
  the stream; every item read before the last one carries no content.
\<close>

theorem closed_channel_writes_nothing:
  "(relay pre acc_pre ch_pre = (None, out_pre, ch_mid, rest_pre) \<longrightarrow>
      sse_log (fst (snd (snd (relay (pre @ Disconnect # post) acc_pre ch_pre)))) = sse_log ch_mid) \<and>
   (available \<and> \<not> sse_closed (wire w_req) \<and> model \<noteq> [] \<and> client_left ans \<longrightarrow>
      sse_log (wire (handleStreamingRequest cfg taskId model available contextData ans w_req)) =
        sse_log (wire w_req)) \<and>
   (sse_closed ch \<and> relay es acc ch = (err, out, ch', rest) \<longrightarrow>
      ch' = ch \<and>
      es = take (length es - length rest) es @ rest \<and>
      list_all (\<lambda>x. \<not> bearing x) (butlast (take (length es - length rest) es)) \<and>
      out = acc @ concat (map content_of (filter bearing (take (length es - length rest) es)))) \<and>
   (sse_closed (wire w) \<and> tool_relay R items ls w = (err', ls', w', rest') \<longrightarrow>
      wire w' = wire w) \<and>
   (sse_closed ch \<longrightarrow> send_done ch = (None, ch) \<and> send_error e ch = ch)"
proof (intro conjI impI)
  assume "relay pre acc_pre ch_pre = (None, out_pre, ch_mid, rest_pre)"
  then show "sse_log (fst (snd (snd (relay (pre @ Disconnect # post) acc_pre ch_pre)))) = sse_log ch_mid"
    by (rule relay_after_closure)
next
  assume "available \<and> \<not> sse_closed (wire w_req) \<and> model \<noteq> [] \<and> client_left ans"
  then show "sse_log (wire (handleStreamingRequest cfg taskId model available contextData ans w_req)) =
        sse_log (wire w_req)"
    using closed_during_call by blast
next
  assume a: "sse_closed ch \<and> relay es acc ch = (err, out, ch', rest)"
  from relay_closed[of ch es acc err out ch' rest] a
  obtain rd where c: "ch' = ch" and rd: "es = rd @ rest"
    "list_all (\<lambda>x. \<not> bearing x) (butlast rd)"
    "out = acc @ concat (map content_of (filter bearing rd))" by blast
  from read_is_take[OF rd(1)] have t: "take (length es - length rest) es = rd" by simp
  show "ch' = ch" by (rule c)
  show "es = take (length es - length rest) es @ rest" unfolding t by (rule rd(1))
  show "list_all (\<lambda>x. \<not> bearing x) (butlast (take (length es - length rest) es))"
    unfolding t by (rule rd(2))
  show "out = acc @ concat (map content_of (filter bearing (take (length es - length rest) es)))"
    unfolding t by (rule rd(3))
next
  assume a: "sse_closed (wire w) \<and> tool_relay R items ls w = (err', ls', w', rest')"
  then have "data_ext (wire w) (wire w')" using tool_relay_data_ext by blast
  then show "wire w' = wire w" using a unfolding data_ext_def by simp
next
  assume "sse_closed ch"
  then show "send_done ch = (None, ch)" by (simp add: send_done_def)
next
  assume "sse_closed ch"
  then show "send_error e ch = ch" by (simp add: send_error_def)
qed

text \<open>
  The client leaves after the first delta: the second is not forwarded, and after the
  failure that follows no error frame is sent. And on a closed channel the loop skips a
  delta without content, takes the text of the next delta, and leaves the third unread.
\<close>

theorem closed_channel_writes_nothing_witness:
  "sse_log (fst (snd (snd (relay
      ([Chunk (content_chunk ''a'')] @ Disconnect # [Chunk (content_chunk ''b''), Throw ''reset''])
      [] open_channel)))) = [Send (Data (content_chunk ''a''))] \<and>
   sse_log (wire (handleStreamingRequest example_config (Some ''s1'') ''m'' True 0
      (left_then_streams [Chunk (content_chunk ''a''), Chunk (content_chunk ''b'')])
      (start store_s1))) = [] \<and>
   sse_closed closed_channel \<and>
   relay [Chunk (content_chunk []), Chunk (content_chunk ''a''), Chunk (content_chunk ''b'')] ''x''
     closed_channel = (None, ''xa'', closed_channel, [Chunk (content_chunk ''b'')]) \<and>
   list_all (\<lambda>x. \<not> bearing x) [Chunk (content_chunk [])] \<and>
   send_done closed_channel = (None, closed_channel) \<and>
   send_error ''reset'' closed_channel = closed_channel"
proof -
  have c: "sse_closed closed_channel" by (simp add: closed_channel_def)
  have r: "relay [Chunk (content_chunk []), Chunk (content_chunk ''a''), Chunk (content_chunk ''b'')] ''x''
     closed_channel = (None, ''xa'', closed_channel, [Chunk (content_chunk ''b'')])"
    by (simp add: closed_channel_def content_chunk_def or_empty_def)
  have p: "relay [Chunk (content_chunk ''a'')] [] open_channel =
             (None, ''a'', snd (sse_send (Data (content_chunk ''a'')) open_channel), [])"
    by (simp add: open_channel_def content_chunk_def or_empty_def sse_send_def next_write_def)
  have o: "\<not> sse_closed (wire (start store_s1))" "sse_log (wire (start store_s1)) = []"
    by (simp_all add: start_def open_channel_def)
  have m: "''m'' \<noteq> []" "client_left (left_then_streams [Chunk (content_chunk ''a''), Chunk (content_chunk ''b'')])"
    by (simp_all add: left_then_streams_def)
  note t = closed_channel_writes_nothing[where e = "''reset''" and acc = "''x''" and
      es = "[Chunk (content_chunk []), Chunk (content_chunk ''a''), Chunk (content_chunk ''b'')]" and
      err = None and out = "''xa''" and ch' = closed_channel and ch = closed_channel and
      rest = "[Chunk (content_chunk ''b'')]" and
      pre = "[Chunk (content_chunk ''a'')]" and acc_pre = "[]" and ch_pre = open_channel and
      out_pre = "''a''" and
      ch_mid = "snd (sse_send (Data (content_chunk ''a'')) open_channel)" and rest_pre = "[]" and
      post = "[Chunk (content_chunk ''b''), Throw ''reset'']" and
      available = True and w_req = "start store_s1" and model = "''m''" and
      ans = "left_then_streams [Chunk (content_chunk ''a''), Chunk (content_chunk ''b'')]" and
      cfg = example_config and taskId = "Some ''s1''" and contextData = 0]
  from t[THEN conjunct1, rule_format, OF p]
  have 1: "sse_log (fst (snd (snd (relay
      ([Chunk (content_chunk ''a'')] @ Disconnect # [Chunk (content_chunk ''b''), Throw ''reset''])
      [] open_channel)))) = [Send (Data (content_chunk ''a''))]"
    by (simp add: sse_send_def next_write_def open_channel_def)
  from t[THEN conjunct2, THEN conjunct1, rule_format] o m
  have 2: "sse_log (wire (handleStreamingRequest example_config (Some ''s1'') ''m'' True 0
      (left_then_streams [Chunk (content_chunk ''a''), Chunk (content_chunk ''b'')])
      (start store_s1))) = []" by simp
  note u = t[THEN conjunct2, THEN conjunct2, THEN conjunct1, rule_format, OF conjI[OF c r]]
  from u[THEN conjunct2, THEN conjunct2, THEN conjunct1]
  have 3: "list_all (\<lambda>x. \<not> bearing x) [Chunk (content_chunk [])]" by simp
  from t[THEN conjunct2, THEN conjunct2, THEN conjunct2, THEN conjunct2, rule_format, OF c]
  have 4: "send_done closed_channel = (None, closed_channel) \<and>
           send_error ''reset'' closed_channel = closed_channel"
    by simp
  from 1 2 3 4 c r show ?thesis by simp
qed

text \<open>
  C7 as the specification states it fails: with the channel already closed, the next delta \<open>a\<close> is
  still read and accumulated, and with a task id it is saved as the assistant message of
  the session; only \<open>b\<close> is left unread. (The client left while the call was pending;
  nothing is written to the channel.)
\<close>

theorem closed_channel_still_reads_counterexample:
  "relay [Chunk (content_chunk ''a''), Chunk (content_chunk ''b'')] [] closed_channel =
     (None, ''a'', closed_channel, [Chunk (content_chunk ''b'')]) \<and>
   history (manager (handleStreamingRequest example_config (Some ''s1'') ''m'' True 0
      (left_then_streams [Chunk (content_chunk ''a''), Chunk (content_chunk ''b'')])
      (start store_s1))) 0 =
     [plain ''system'' (Some ''p''), plain ''assistant'' (Some ''a'')] \<and>
   sse_log (wire (handleStreamingRequest example_config (Some ''s1'') ''m'' True 0
      (left_then_streams [Chunk (content_chunk ''a''), Chunk (content_chunk ''b'')])
      (start store_s1))) = []"
  by (simp add: closed_channel_def content_chunk_def or_empty_def handleStreamingRequest_def
        primary_call_def catch_def start_def open_channel_def left_then_streams_def await_call_def
        client_closes_def send_done_def persist_def truthy_def store_s1_def example_config_def
        new_manager_def getContext_def alloc_def touch_def addMessage_def history_def
        new_context_def push_and_trim_def js_slice_from_def Let_def)

section \<open>Saving the assistant message\<close>



























section \<open>The progressive preamble\<close>







section \<open>Tool invocations\<close>

lemma collect_accumulates:
  "accumulatedArguments (collect d ls) = accumulatedArguments ls @ fragment d"
  by (simp add: collect_def Let_def)

lemma complete_tool_call_arguments:
  assumes "complete_tool_call R ls w = (err, ls', w')"
  shows "accumulatedArguments ls' = accumulatedArguments ls \<and>
         (requests w' = requests w \<or>
          (\<exists>tc r. toolCallData ls' = Some tc \<and>
                  fn_arguments (tc_function tc) = accumulatedArguments ls \<and>
                  requests w' = requests w @ [r] \<and> follows_tool_call (tr_env R) tc r))"
proof (cases "toolCallData ls")
  case None
  then show ?thesis using assms by (auto simp: complete_tool_call_def)
next
  case (Some tcd)
  define tc where "tc = tcd\<lparr>tc_function := (tc_function tcd)\<lparr>fn_arguments := accumulatedArguments ls\<rparr>\<rparr>"
  have ls': "toolCallData ls' = Some tc \<and> accumulatedArguments ls' = accumulatedArguments ls"
    using assms Some unfolding tc_def
    by (auto simp: complete_tool_call_def Let_def split: reply.splits prod.splits option.splits)
  have "\<exists>r. requests w' = requests w @ [r] \<and> follows_tool_call (tr_env R) tc r"
    using assms Some unfolding tc_def
    by (auto simp: complete_tool_call_def await_call_def follows_tool_call_def butlast_append Let_def
             split: reply.splits prod.splits option.splits)
  moreover have "fn_arguments (tc_function tc) = accumulatedArguments ls" by (simp add: tc_def)
  ultimately show ?thesis using ls' by blast
qed


lemma tool_relay_arguments:
  "tool_relay R es ls w = (err, ls', w', rest) \<Longrightarrow>
     (\<exists>rd. es = rd @ rest \<and>
        accumulatedArguments ls' = accumulatedArguments ls @ concat (fragments rd) \<and>
        (requests w' = requests w \<or>
         (\<exists>tc r. toolCallData ls' = Some tc \<and>
                 fn_arguments (tc_function tc) = accumulatedArguments ls' \<and>
                 requests w' = requests w @ [r] \<and> follows_tool_call (tr_env R) tc r)))"
proof (induction R es ls w rule: tool_relay.induct)
  case (1 R ls w)
  then show ?case by simp
next
  case (2 R es ls w)
  from "2.prems" have "tool_relay R es ls (w\<lparr>wire := client_closes (wire w)\<rparr>) = (err, ls', w', rest)"
    by simp
  from "2.IH"[OF this] obtain rd where rd: "es = rd @ rest"
    "accumulatedArguments ls' = accumulatedArguments ls @ concat (fragments rd)"
    "requests w' = requests w \<or>
         (\<exists>tc r. toolCallData ls' = Some tc \<and>
                 fn_arguments (tc_function tc) = accumulatedArguments ls' \<and>
                 requests w' = requests w @ [r] \<and> follows_tool_call (tr_env R) tc r)"
    by auto
  show ?case using rd by (intro exI[of _ "Disconnect # rd"]) simp
next
  case (3 R e es ls w)
  then have "rest = es" "ls' = ls" "w' = w" by simp_all
  then show ?case by (intro exI[of _ "[Throw e]"]) simp
next
  case (4 R c es ls w)
  show ?case
  proof (cases "delta_tool_calls c")
    case (Some tcs)
    show ?thesis
    proof (cases tcs)
      case Nil
      with "4.prems" Some have "rest = es" "ls' = ls" "w' = w" by auto
      then show ?thesis using Some Nil by (intro exI[of _ "[Chunk c]"]) simp
    next
      case (Cons d ds)
      from "4.prems" Some Cons have "tool_relay R es (collect d ls) w = (err, ls', w', rest)" by simp
      from "4.IH"(3)[OF Some Cons this] obtain rd where rd: "es = rd @ rest"
        "accumulatedArguments ls' = accumulatedArguments (collect d ls) @ concat (fragments rd)"
        "requests w' = requests w \<or>
         (\<exists>tc r. toolCallData ls' = Some tc \<and>
                 fn_arguments (tc_function tc) = accumulatedArguments ls' \<and>
                 requests w' = requests w @ [r] \<and> follows_tool_call (tr_env R) tc r)"
        by auto
      show ?thesis using rd Some Cons
        by (intro exI[of _ "Chunk c # rd"]) (simp add: collect_accumulates)
    qed
  next
    case None
    show ?thesis
    proof (cases "collectingToolCall ls \<and> finish_reason c = Some ''tool_calls''")
      case True
      obtain e l x where cc: "complete_tool_call R ls w = (e, l, x)"
        by (cases "complete_tool_call R ls w")
      with "4.prems" None True have eq: "rest = es" "ls' = l" "w' = x" by auto
      from complete_tool_call_arguments[OF cc] eq
      have a: "accumulatedArguments ls' = accumulatedArguments ls"
        and r: "requests w' = requests w \<or>
          (\<exists>tc r. toolCallData ls' = Some tc \<and>
                  fn_arguments (tc_function tc) = accumulatedArguments ls \<and>
                  requests w' = requests w @ [r] \<and> follows_tool_call (tr_env R) tc r)"
        by simp_all
      show ?thesis using a r eq(1) None
        by (intro exI[of _ "[Chunk c]"]) simp
    next
      case False
      show ?thesis
      proof (cases "or_empty (delta_content c) \<noteq> []")
        case True
        show ?thesis
        proof (cases "sse_closed (wire w)")
          case True
          with "4.prems" None False \<open>or_empty (delta_content c) \<noteq> []\<close>
          have "rest = es" "accumulatedArguments ls' = accumulatedArguments ls" "w' = w" by auto
          then show ?thesis using None by (intro exI[of _ "[Chunk c]"]) simp
        next
          case isopen: False
          obtain r ch1 where s: "sse_send (Data c) (wire w) = (r, ch1)"
            by (cases "sse_send (Data c) (wire w)")
          show ?thesis
          proof (cases r)
            case no_throw: None
            from "4.prems" None False True isopen s no_throw
            have "tool_relay R es
                    (ls\<lparr>assistantResponse := assistantResponse ls @ or_empty (delta_content c)\<rparr>)
                    (w\<lparr>wire := ch1\<rparr>) = (err, ls', w', rest)" by simp
            from "4.IH"(1)[OF None False True isopen s[symmetric] no_throw this]
            obtain rd where rd: "es = rd @ rest"
              "accumulatedArguments ls' = accumulatedArguments ls @ concat (fragments rd)"
              "requests w' = requests w \<or>
               (\<exists>tc r. toolCallData ls' = Some tc \<and>
                   fn_arguments (tc_function tc) = accumulatedArguments ls' \<and>
                   requests w' = requests w @ [r] \<and> follows_tool_call (tr_env R) tc r)"
              by auto
            show ?thesis using rd None by (intro exI[of _ "Chunk c # rd"]) simp
          next
            case (Some e)
            with "4.prems" None False True isopen s
            have "rest = es" "accumulatedArguments ls' = accumulatedArguments ls"
              "requests w' = requests w" by auto
            then show ?thesis using None by (intro exI[of _ "[Chunk c]"]) simp
          qed
        qed
      next
        case empty: False
        from "4.prems" None False empty
        have "tool_relay R es ls w = (err, ls', w', rest)" by simp
        from "4.IH"(2)[OF None False empty this] obtain rd where rd: "es = rd @ rest"
            "accumulatedArguments ls' = accumulatedArguments ls @ concat (fragments rd)"
            "requests w' = requests w \<or>
             (\<exists>tc r. toolCallData ls' = Some tc \<and>
                 fn_arguments (tc_function tc) = accumulatedArguments ls' \<and>
                 requests w' = requests w @ [r] \<and> follows_tool_call (tr_env R) tc r)"
          by auto
        show ?thesis using rd None by (intro exI[of _ "Chunk c # rd"]) simp
      qed
    qed
  qed
qed

text \<open>
  C9. The arguments of a tool invocation are its fragments concatenated in arrival order.
  Run the main loop of the tools service from its initial state on any stream \<open>es\<close>; let
  \<open>rest\<close> be the items it never read. Then the argument buffer is the concatenation, in
  order of arrival, of the fragments of the items read, and if the invocation was
  completed (a follow-up request was made), the invocation that was run, recorded and
  sent to the provider has exactly this concatenation as its arguments. (A chunk's
  fragment is read from the first entry of its \<^verbatim>\<open>tool_calls\<close>, as the loop does.)
\<close>

theorem arguments_concatenated_in_arrival_order:
  assumes "tool_relay R es initial_loop_state w = (err, ls', w', rest)"
  shows "es = take (length es - length rest) es @ rest \<and>
         accumulatedArguments ls' = concat (fragments (take (length es - length rest) es)) \<and>
         (requests w' = requests w \<or>
          (\<exists>tc r. toolCallData ls' = Some tc \<and>
                  fn_arguments (tc_function tc) =
                    concat (fragments (take (length es - length rest) es)) \<and>
                  requests w' = requests w @ [r] \<and> follows_tool_call (tr_env R) tc r))"
proof -
  from tool_relay_arguments[OF assms] obtain rd where rd: "es = rd @ rest"
    "accumulatedArguments ls' = concat (fragments rd)"
    "requests w' = requests w \<or>
         (\<exists>tc r. toolCallData ls' = Some tc \<and>
                 fn_arguments (tc_function tc) = accumulatedArguments ls' \<and>
                 requests w' = requests w @ [r] \<and> follows_tool_call (tr_env R) tc r)"
    by (auto simp: initial_loop_state_def)
  have t: "take (length es - length rest) es = rd" using rd(1) by simp
  show ?thesis unfolding t using rd by auto
qed


lemma weather_run:
  \<open>tool_relay (tools_request None 0 [Chunk (content_chunk ''Sunny'')]) weather_stream
     initial_loop_state (start store_anonymous) =
   (None,
    \<lparr>assistantResponse = ''Sunny'', collectingToolCall = True, toolCallData = Some weather_call,
     accumulatedArguments = ''{"location":"Beijing"}''\<rparr>,
    \<lparr>manager = store_anonymous,
     wire = \<lparr>sse_closed = False, sse_log = [Send (Data (content_chunk ''Sunny''))],
             sse_thrown = [], sse_script = []\<rparr>,
     requests =
       [\<lparr>req_model = ''m'',
         req_messages = [plain ''system'' (Some ''p''), user_says ''weather?'',
                         assistant_tool_message weather_call,
                         tool_result_message weather_call ''sunny''],
         req_stream = True, req_tools = False\<rparr>]\<rparr>,
    [])\<close>
  by (simp add: tools_request_def weather_stream_def initial_loop_state_def start_def
        open_channel_def tool_chunk_def finish_chunk_def content_chunk_def collect_def fragment_def
        or_empty_def complete_tool_call_def handleFunctionCall_def function_result_def
        example_env_def truthy_def await_call_def streams_def store_anonymous_history
        persist_def sse_send_def next_write_def weather_call_def Let_def)

text \<open>
  The fragments \<^verbatim>\<open>{"loc\<close>, \<^verbatim>\<open>ation":"\<close>, \<^verbatim>\<open>Beijing"}\<close> arrive in this order, and the buffer is
  \<^verbatim>\<open>{"location":"Beijing"}\<close>.
\<close>

theorem arguments_concatenated_in_arrival_order_witness:
  \<open>fragments weather_stream = [''{"loc'', ''ation":"'', ''Beijing"}''] \<and>
   accumulatedArguments (fst (snd (tool_relay (tools_request None 0 [Chunk (content_chunk ''Sunny'')])
      weather_stream initial_loop_state (start store_anonymous)))) = ''{"location":"Beijing"}''\<close>
proof -
  have f: \<open>fragments weather_stream = [''{"loc'', ''ation":"'', ''Beijing"}'']\<close>
    by (simp add: weather_stream_def tool_chunk_def finish_chunk_def fragment_def or_empty_def)
  obtain err ls' w' rest where
    r: "tool_relay (tools_request None 0 [Chunk (content_chunk ''Sunny'')])
          weather_stream initial_loop_state (start store_anonymous) = (err, ls', w', rest)"
    and e: "rest = []"
    using weather_run by blast
  from arguments_concatenated_in_arrival_order[OF r]
  have "accumulatedArguments ls' =
          concat (fragments (take (length weather_stream - length rest) weather_stream))"
    by simp
  also have "\<dots> = concat (fragments weather_stream)" using e by simp
  also have \<open>\<dots> = ''{"location":"Beijing"}''\<close> unfolding f by simp
  finally show ?thesis using f r by simp
qed

lemma sse_send_throws:
  assumes "sse_send f ch = (r, ch1)"
  shows "set (sse_script ch1) \<subseteq> set (sse_script ch) \<and>
         (\<forall>e. r = Some e \<longrightarrow> (\<exists>closes. Throws e closes \<in> set (sse_script ch)))"
  using assms
  by (auto simp: sse_send_def next_write_def split: list.splits write_result.splits)

lemma relay_without_throw:
  "list_all (\<lambda>x. \<not> throws x) items \<Longrightarrow> relay items acc ch = (Some e, out, ch', rest) \<Longrightarrow>
     \<exists>closes. Throws e closes \<in> set (sse_script ch)"
proof (induction items acc ch rule: relay.induct)
  case (1 acc ch)
  then show ?case by simp
next
  case (2 es acc ch)
  then show ?case by (simp add: client_closes_def)
next
  case (3 e es acc ch)
  then show ?case by simp
next
  case (4 c es acc ch)
  show ?case
  proof (cases "or_empty (delta_content c) \<noteq> []")
    case True
    show ?thesis
    proof (cases "sse_closed ch")
      case True
      then show ?thesis using "4.prems" \<open>or_empty (delta_content c) \<noteq> []\<close> by simp
    next
      case isopen: False
      obtain r ch1 where s: "sse_send (Data c) ch = (r, ch1)" by (cases "sse_send (Data c) ch")
      note t = sse_send_throws[OF s]
      show ?thesis
      proof (cases r)
        case None
        from "4.prems" True isopen s None
        have "relay es (acc @ or_empty (delta_content c)) ch1 = (Some e, out, ch', rest)"
          and "list_all (\<lambda>x. \<not> throws x) es" by simp_all
        from "4.IH"(1)[OF True isopen s[symmetric] None this(2) this(1)] t
        show ?thesis by auto
      next
        case (Some e')
        with "4.prems" True isopen s have "e' = e" by simp
        with Some t show ?thesis by simp
      qed
    qed
  next
    case False
    then show ?thesis using 4 by simp
  qed
qed

lemma reliable_start: "reliable (wire (start m))"
  by (simp add: reliable_def start_def open_channel_def)

lemma reliable_no_throws: "reliable ch \<Longrightarrow> Throws e closes \<notin> set (sse_script ch)"
  by (auto simp: reliable_def list_all_iff)

text \<open>
  C6, as the code has it. A tool name other than \<^verbatim>\<open>get_weather\<close> gives the payload
  \<^verbatim>\<open>{ error: "Function not implemented" }\<close>, whatever its arguments: they are not parsed.
  For \<^verbatim>\<open>get_weather\<close>, arguments that fail to parse give a payload with the text of the
  parse error. And every completed invocation goes on to the follow-up request, whose
  last two messages are the invocation and the payload; the completion raises nothing
  unless the follow-up call is rejected or its stream fails, or a write to the client's
  channel throws (then it raises what the channel threw).
\<close>

theorem tool_failure_becomes_result:
  "(fn_name fc \<noteq> ''get_weather'' \<longrightarrow>
      handleFunctionCall E fc = JSON_stringify E (Error_object ''Function not implemented'')) \<and>
   (fn_name fc = ''get_weather'' \<and> JSON_parse E (fn_arguments fc) = Inl e \<longrightarrow>
      handleFunctionCall E fc = JSON_stringify E (Error_object (''Error parsing arguments: '' @ e))) \<and>
   (toolCallData ls = Some tcd \<longrightarrow>
      (\<exists>r. requests (snd (snd (complete_tool_call R ls w))) = requests w @ [r] \<and>
           follows_tool_call (tr_env R)
             (tcd\<lparr>tc_function := (tc_function tcd)\<lparr>fn_arguments := accumulatedArguments ls\<rparr>\<rparr>) r)) \<and>
   (toolCallData ls = Some tcd \<and> reply (tr_followUp R) = Stream items \<and>
    list_all (\<lambda>x. \<not> throws x) items \<longrightarrow>
      (reliable (wire w) \<longrightarrow> fst (complete_tool_call R ls w) = None) \<and>
      (\<forall>thrown. fst (complete_tool_call R ls w) = Some thrown \<longrightarrow>
                (\<exists>closes. Throws thrown closes \<in> set (sse_script (wire w)))))"
proof (intro conjI impI)
  assume "fn_name fc \<noteq> ''get_weather''"
  then show "handleFunctionCall E fc = JSON_stringify E (Error_object ''Function not implemented'')"
    by (simp add: handleFunctionCall_def function_result_def)
next
  assume "fn_name fc = ''get_weather'' \<and> JSON_parse E (fn_arguments fc) = Inl e"
  then show "handleFunctionCall E fc = JSON_stringify E (Error_object (''Error parsing arguments: '' @ e))"
    by (simp add: handleFunctionCall_def function_result_def)
next
  assume a: "toolCallData ls = Some tcd"
  obtain err ls' w' where c: "complete_tool_call R ls w = (err, ls', w')"
    by (cases "complete_tool_call R ls w")
  define tc where "tc = tcd\<lparr>tc_function := (tc_function tcd)\<lparr>fn_arguments := accumulatedArguments ls\<rparr>\<rparr>"
  have "\<exists>r. requests w' = requests w @ [r] \<and> follows_tool_call (tr_env R) tc r"
    using c a unfolding tc_def
    by (auto simp: complete_tool_call_def await_call_def follows_tool_call_def butlast_append Let_def
             split: reply.splits prod.splits option.splits)
  then show "\<exists>r. requests (snd (snd (complete_tool_call R ls w))) = requests w @ [r] \<and>
           follows_tool_call (tr_env R)
             (tcd\<lparr>tc_function := (tc_function tcd)\<lparr>fn_arguments := accumulatedArguments ls\<rparr>\<rparr>) r"
    using c unfolding tc_def by simp
next
  assume a: "toolCallData ls = Some tcd \<and> reply (tr_followUp R) = Stream items \<and>
    list_all (\<lambda>x. \<not> throws x) items"
  have t: "\<exists>closes. Throws thrown closes \<in> set (sse_script (wire w))"
    if f: "fst (complete_tool_call R ls w) = Some thrown" for thrown
  proof -
    define tc where "tc = tcd\<lparr>tc_function := (tc_function tcd)\<lparr>fn_arguments := accumulatedArguments ls\<rparr>\<rparr>"
    define m1 where "m1 = (if truthy (tr_taskId R)
                     then snd (addMessage (tr_cfg R) (tr_taskId R)
                            (tool_result_message tc (handleFunctionCall (tr_env R) (tc_function tc)))
                            (snd (addMessage (tr_cfg R) (tr_taskId R) (assistant_tool_message tc)
                               (manager w))))
                     else manager w)"
    define w1 where "w1 = await_call (tr_followUp R)
                      \<lparr>req_model = tr_model R,
                       req_messages = history m1 (tr_contextData R) @
                          [assistant_tool_message tc,
                           tool_result_message tc (handleFunctionCall (tr_env R) (tc_function tc))],
                       req_stream = True, req_tools = False\<rparr>
                      (w\<lparr>manager := m1\<rparr>)"
    have sc: "sse_script (wire w1) = sse_script (wire w)"
      unfolding w1_def by (simp add: await_call_def client_closes_def)
    obtain err out ch rest where
      rl: "relay items (assistantResponse (ls\<lparr>toolCallData := Some tc\<rparr>)) (wire w1) = (err, out, ch, rest)"
      by (cases "relay items (assistantResponse (ls\<lparr>toolCallData := Some tc\<rparr>)) (wire w1)")
    have "fst (complete_tool_call R ls w) = err"
      using a rl unfolding complete_tool_call_def w1_def m1_def tc_def
      by (cases err) (simp_all add: Let_def)
    with f have "err = Some thrown" by simp
    from relay_without_throw[OF _ rl[unfolded this]] a sc show ?thesis by simp
  qed
  show "fst (complete_tool_call R ls w) = None" if "reliable (wire w)"
  proof (cases "fst (complete_tool_call R ls w)")
    case None
    then show ?thesis .
  next
    case (Some thrown)
    from t[OF Some] reliable_no_throws[OF that] show ?thesis by auto
  qed
  show "\<forall>thrown. fst (complete_tool_call R ls w) = Some thrown \<longrightarrow>
                (\<exists>closes. Throws thrown closes \<in> set (sse_script (wire w)))"
    using t by blast
qed

text \<open>
  The unregistered tool and the registered tool, both with arguments that do not parse;
  the completion of the unregistered invocation; and the whole request in which the
  provider streams that invocation, which ends with the sentinel.
\<close>

theorem tool_failure_becomes_result_witness:
  \<open>handleFunctionCall example_env unknown_call = ''{"error":"Function not implemented"}'' \<and>
   handleFunctionCall example_env bad_weather_call =
     ''{"error":"Error parsing arguments: Unexpected end of JSON input"}'' \<and>
   fst (complete_tool_call (tools_request None 0 [Chunk (content_chunk ''Sorry'')])
          collected_unknown (start store_anonymous)) = None \<and>
   outcome_of (sse_log (wire (handleStreamingRequest_tools
       (tools_request None 0 [Chunk (content_chunk ''Sorry'')]) True
       (streams unknown_stream) (start store_anonymous)))) = Some Completed\<close>
proof -
  note t1 = tool_failure_becomes_result[where fc = unknown_call and E = example_env,
      THEN conjunct1, rule_format]
  note t2 = tool_failure_becomes_result[where fc = bad_weather_call and E = example_env and
      e = "''Unexpected end of JSON input''", THEN conjunct2, THEN conjunct1, rule_format]
  note t3 = tool_failure_becomes_result[where R = "tools_request None 0 [Chunk (content_chunk ''Sorry'')]"
      and ls = collected_unknown and w = "start store_anonymous"
      and items = "[Chunk (content_chunk ''Sorry'')]"
      and tcd = "\<lparr>tc_id = ''c2'', tc_type = ''function'',
                  tc_function = \<lparr>fn_name = ''get_time'', fn_arguments = []\<rparr>\<rparr>",
      THEN conjunct2, THEN conjunct2, THEN conjunct2, rule_format, THEN conjunct1, rule_format,
      OF _ reliable_start]
  have "handleFunctionCall example_env unknown_call =
          JSON_stringify example_env (Error_object ''Function not implemented'')"
    by (rule t1) (simp add: unknown_call_def)
  moreover have "handleFunctionCall example_env bad_weather_call =
          JSON_stringify example_env
            (Error_object (''Error parsing arguments: '' @ ''Unexpected end of JSON input''))"
    by (rule t2) (simp add: bad_weather_call_def example_env_def)
  moreover have "fst (complete_tool_call (tools_request None 0 [Chunk (content_chunk ''Sorry'')])
          collected_unknown (start store_anonymous)) = None"
    using t3 by (simp add: collected_unknown_def tools_request_def streams_def)
  moreover have \<open>outcome_of (sse_log (wire (handleStreamingRequest_tools
       (tools_request None 0 [Chunk (content_chunk ''Sorry'')]) True
       (streams unknown_stream) (start store_anonymous)))) = Some Completed\<close>
    by (simp add: handleStreamingRequest_tools_def tools_try_def catch_def
        tools_request_def unknown_stream_def initial_loop_state_def start_def
        open_channel_def tool_chunk_def finish_chunk_def content_chunk_def collect_def fragment_def
        or_empty_def complete_tool_call_def handleFunctionCall_def function_result_def
        example_env_def truthy_def await_call_def streams_def store_anonymous_history
        persist_def sse_send_def next_write_def send_done_def sse_end_def Let_def)
  ultimately show ?thesis by (simp add: example_env_def)
qed

text \<open>
  C6 as the specification states it fails where both conditions meet: the arguments of an invocation of
  an unregistered tool do not parse, and the payload is the not-implemented marker
  without the parse error.
\<close>

theorem unknown_tool_hides_parse_error_counterexample:
  \<open>JSON_parse example_env (fn_arguments unknown_call) = Inl ''Unexpected end of JSON input'' \<and>
   handleFunctionCall example_env unknown_call = ''{"error":"Function not implemented"}'' \<and>
   handleFunctionCall example_env unknown_call \<noteq>
     JSON_stringify example_env
       (Error_object (''Error parsing arguments: '' @ ''Unexpected end of JSON input''))\<close>
  by (simp add: example_env_def unknown_call_def handleFunctionCall_def function_result_def)


text \<open>
  C3. On completion the follow-up request is meant to carry the history and the two new
  messages. For a request with task id \<open>s1\<close> it carries the two messages twice:
  \<^verbatim>\<open>addMessage\<close> has already pushed them onto the context that \<^verbatim>\<open>contextData\<close> refers to,
  and the request is built as \<^verbatim>\<open>[...contextData.messages, assistant message, tool message]\<close>.
  Without a task id nothing is pushed and the request is as intended.
\<close>

theorem follow_up_repeats_tool_messages:
  \<open>map req_messages (requests (handleStreamingRequest_tools
       (tools_request (Some ''s1'') 0 [Chunk (content_chunk ''Sunny'')]) True
       (streams weather_stream) (start store_asked))) =
   [[plain ''system'' (Some ''p''), user_says ''weather?''],
    [plain ''system'' (Some ''p''), user_says ''weather?'',
     assistant_tool_message weather_call, tool_result_message weather_call ''sunny'',
     assistant_tool_message weather_call, tool_result_message weather_call ''sunny'']] \<and>
   map req_messages (requests (handleStreamingRequest_tools
       (tools_request None 0 [Chunk (content_chunk ''Sunny'')]) True
       (streams weather_stream) (start store_anonymous))) =
   [[plain ''system'' (Some ''p''), user_says ''weather?''],
    [plain ''system'' (Some ''p''), user_says ''weather?'',
     assistant_tool_message weather_call, tool_result_message weather_call ''sunny'']]\<close>
  by (simp add: handleStreamingRequest_tools_def tools_try_def catch_def
        tools_request_def weather_stream_def initial_loop_state_def start_def
        open_channel_def tool_chunk_def finish_chunk_def content_chunk_def collect_def fragment_def
        or_empty_def complete_tool_call_def handleFunctionCall_def function_result_def
        example_env_def truthy_def await_call_def streams_def
        persist_def sse_send_def next_write_def weather_call_def send_done_def sse_end_def Let_def
        store_asked_def store_anonymous_def fold_messages_def getContext_def alloc_def touch_def
        new_context_def example_config_def new_manager_def addMessage_def push_and_trim_def
        js_slice_from_def history_def push_direct_def assistant_tool_message_def
        tool_result_message_def user_says_def plain_def)

text \<open>
  So the follow-up request of the run with task id \<open>s1\<close> holds six messages, two more
  than the four of the run without a task id.
\<close>

theorem follow_up_repeats_tool_messages_witness:
  "map (length \<circ> req_messages) (requests (handleStreamingRequest_tools
       (tools_request (Some ''s1'') 0 [Chunk (content_chunk ''Sunny'')]) True
       (streams weather_stream) (start store_asked))) = [2, 6] \<and>
   map (length \<circ> req_messages) (requests (handleStreamingRequest_tools
       (tools_request None 0 [Chunk (content_chunk ''Sunny'')]) True
       (streams weather_stream) (start store_anonymous))) = [2, 4]"
proof -
  have l: "\<And>rs. map (length \<circ> req_messages) rs = map length (map req_messages rs)" by simp
  show ?thesis
    unfolding l follow_up_repeats_tool_messages[THEN conjunct1]
      follow_up_repeats_tool_messages[THEN conjunct2]
    by simp
qed

section \<open>Retrieval\<close>

lemma js_slice_to_take: "0 \<le> n \<Longrightarrow> js_slice_to n xs = take (nat n) xs"
  by (auto simp: js_slice_to_def Let_def min_def)

lemma sorted_descending:
  "sorted (map (\<lambda>d. - similarity d) xs) = sorted_wrt (\<lambda>a b. similarity b \<le> similarity a) xs"
  by (induction xs) auto

lemma ties_keep_corpus_order:
  "filter (\<lambda>d. similarity d = k) (sort_key (\<lambda>d. - similarity d) xs) =
   filter (\<lambda>d. similarity d = k) xs"
proof -
  have "(\<lambda>d. similarity d = k) = (\<lambda>d. - similarity d = - k)" by auto
  then show ?thesis using sort_key_stable[of "\<lambda>d. - similarity d" "- k" xs] by simp
qed

lemma kept_is_prefix_of_ranking:
  assumes "0 \<le> maxDocuments rc"
  shows "\<exists>ranking. kept rag rc q = take (nat (maxDocuments rc)) ranking \<and>
           sorted_wrt (\<lambda>a b. similarity b \<le> similarity a) ranking \<and>
           (\<forall>k. filter (\<lambda>d. similarity d = k) ranking =
                filter (\<lambda>d. similarity d = k) (qualifying rag rc q))"
proof (intro exI conjI)
  show "kept rag rc q =
          take (nat (maxDocuments rc)) (sort_key (\<lambda>d. - similarity d) (qualifying rag rc q))"
    using assms by (simp add: kept_def relevant_def qualifying_def js_slice_to_take)
  show "sorted_wrt (\<lambda>a b. similarity b \<le> similarity a)
          (sort_key (\<lambda>d. - similarity d) (qualifying rag rc q))"
    using sorted_sort_key[of "\<lambda>d. - similarity d" "qualifying rag rc q"]
    by (simp add: sorted_descending)
  show "\<forall>k. filter (\<lambda>d. similarity d = k) (sort_key (\<lambda>d. - similarity d) (qualifying rag rc q)) =
            filter (\<lambda>d. similarity d = k) (qualifying rag rc q)"
    by (simp add: ties_keep_corpus_order)
qed

lemma createContext_nonempty: "docs \<noteq> [] \<Longrightarrow> createContext rc docs \<noteq> None"
  by (simp add: createContext_def)

lemma enhance_cases:
  "enhanceSystemMessage rag rc query systemMessage =
     (case getEmbedding rag query of
        Inl e \<Rightarrow> systemMessage
      | Inr q \<Rightarrow>
          if \<not> rag_enabled rc \<or> kept rag rc q = [] then systemMessage
          else (case content systemMessage of
                  None \<Rightarrow> systemMessage
                | Some original \<Rightarrow>
                    \<lparr>role = ''system'',
                     content = Some (original @ newline @ newline @
                                     the (createContext rc (kept rag rc q))),
                     tool_calls = None, tool_call_id = None,
                     sources = Some (map title (kept rag rc q))\<rparr>))"
  by (auto simp: enhanceSystemMessage_def retrieveRelevantDocuments_def kept_def createContext_def
        Let_def split: sum.splits option.splits)

text \<open>
  C4. For every query the retrieval step keeps the corpus documents that score at or
  above the threshold, best first, ties in corpus order, at most \<^verbatim>\<open>maxDocuments\<close> of them;
  and it returns the system message unchanged when it keeps none or when the embedding
  of the query fails. Precisely, for a maximum that is a count (not negative): the kept
  list is the first \<^verbatim>\<open>maxDocuments\<close> entries of a ranking that is sorted by descending
  similarity and in which, for every score, the documents with that score are exactly
  the qualifying corpus documents with that score, in corpus order; every kept document
  qualifies, and all qualifying documents are kept when they are no more than the
  maximum. When documents are kept and the system message has a content, the returned
  message is that content followed by the context built from the kept documents, and
  their titles, in this order, are its \<^verbatim>\<open>sources\<close>; a system message whose content is
  \<^verbatim>\<open>null\<close> comes back unchanged, through the \<^verbatim>\<open>catch\<close> block. (Similarities are real
  numbers here; a \<^verbatim>\<open>NaN\<close> similarity fails \<^verbatim>\<open>>=\<close> and is dropped by the filter.)
\<close>

theorem augment_keeps_best_documents:
  assumes "0 \<le> maxDocuments rc"
  shows "(case getEmbedding rag query of
            Inl e \<Rightarrow> enhanceSystemMessage rag rc query systemMessage = systemMessage
          | Inr q \<Rightarrow>
              (kept rag rc q = [] \<longrightarrow>
                 enhanceSystemMessage rag rc query systemMessage = systemMessage) \<and>
              (kept rag rc q \<noteq> [] \<and> rag_enabled rc \<longrightarrow>
                 (case content systemMessage of
                    None \<Rightarrow> enhanceSystemMessage rag rc query systemMessage = systemMessage
                  | Some original \<Rightarrow>
                      role (enhanceSystemMessage rag rc query systemMessage) = ''system'' \<and>
                      (\<exists>ragContext. createContext rc (kept rag rc q) = Some ragContext \<and>
                         content (enhanceSystemMessage rag rc query systemMessage) =
                           Some (original @ newline @ newline @ ragContext)) \<and>
                      sources (enhanceSystemMessage rag rc query systemMessage) =
                        Some (map title (kept rag rc q)))) \<and>
              length (kept rag rc q) \<le> nat (maxDocuments rc) \<and>
              set (kept rag rc q) \<subseteq> set (qualifying rag rc q) \<and>
              (length (qualifying rag rc q) \<le> nat (maxDocuments rc) \<longrightarrow>
                 set (kept rag rc q) = set (qualifying rag rc q)) \<and>
              (\<exists>ranking. kept rag rc q = take (nat (maxDocuments rc)) ranking \<and>
                 sorted_wrt (\<lambda>a b. similarity b \<le> similarity a) ranking \<and>
                 (\<forall>k. filter (\<lambda>d. similarity d = k) ranking =
                      filter (\<lambda>d. similarity d = k)
                        (filter (\<lambda>d. similarityThreshold rc \<le> similarity d)
                           (map (score rag q) (documents rag))))))"
proof (cases "getEmbedding rag query")
  case (Inl e)
  then show ?thesis by (simp add: enhance_cases)
next
  case (Inr q)
  from kept_is_prefix_of_ranking[OF assms, of rag q]
  obtain ranking where r: "kept rag rc q = take (nat (maxDocuments rc)) ranking"
    "sorted_wrt (\<lambda>a b. similarity b \<le> similarity a) ranking"
    "\<forall>k. filter (\<lambda>d. similarity d = k) ranking =
                filter (\<lambda>d. similarity d = k) (qualifying rag rc q)" by blast
  have l: "length (kept rag rc q) \<le> nat (maxDocuments rc)" unfolding r(1) by simp
  have k: "kept rag rc q =
          take (nat (maxDocuments rc)) (sort_key (\<lambda>d. - similarity d) (qualifying rag rc q))"
    using assms by (simp add: kept_def relevant_def qualifying_def js_slice_to_take)
  have s: "set (kept rag rc q) \<subseteq> set (qualifying rag rc q)"
    unfolding k using set_take_subset[of "nat (maxDocuments rc)"
        "sort_key (\<lambda>d. - similarity d) (qualifying rag rc q)"] by simp
  have a: "length (qualifying rag rc q) \<le> nat (maxDocuments rc) \<longrightarrow>
                 set (kept rag rc q) = set (qualifying rag rc q)"
    unfolding k by simp
  have e: "\<exists>ranking. kept rag rc q = take (nat (maxDocuments rc)) ranking \<and>
                 sorted_wrt (\<lambda>a b. similarity b \<le> similarity a) ranking \<and>
                 (\<forall>k. filter (\<lambda>d. similarity d = k) ranking =
                      filter (\<lambda>d. similarity d = k)
                        (filter (\<lambda>d. similarityThreshold rc \<le> similarity d)
                           (map (score rag q) (documents rag))))"
    using r unfolding qualifying_def by blast
  have c: "kept rag rc q \<noteq> [] \<longrightarrow>
             (\<exists>ragContext. createContext rc (kept rag rc q) = Some ragContext)"
    using createContext_nonempty[of "kept rag rc q" rc] by auto
  have m: "kept rag rc q \<noteq> [] \<and> rag_enabled rc \<longrightarrow>
                 (case content systemMessage of
                    None \<Rightarrow> enhanceSystemMessage rag rc query systemMessage = systemMessage
                  | Some original \<Rightarrow>
                      role (enhanceSystemMessage rag rc query systemMessage) = ''system'' \<and>
                      (\<exists>ragContext. createContext rc (kept rag rc q) = Some ragContext \<and>
                         content (enhanceSystemMessage rag rc query systemMessage) =
                           Some (original @ newline @ newline @ ragContext)) \<and>
                      sources (enhanceSystemMessage rag rc query systemMessage) =
                        Some (map title (kept rag rc q)))"
    using Inr c by (auto simp: enhance_cases split: option.splits)
  have u: "kept rag rc q = [] \<longrightarrow> enhanceSystemMessage rag rc query systemMessage = systemMessage"
    using Inr by (simp add: enhance_cases)
  show ?thesis using Inr l s a e m u by simp
qed


text \<open>
  With threshold 0.7 and a maximum of two, the corpus A 0.5, B 0.8, C 0.9, D 0.8 gives
  C then B: B and D tie and B was registered first. With threshold 0.99 nothing
  qualifies, and for the empty query the embedding fails: the message comes back as it
  was. So does a system message whose content is \<^verbatim>\<open>null\<close>.
\<close>

theorem augment_keeps_best_documents_witness:
  "0 \<le> maxDocuments (example_rag_config 0.7 2) \<and>
   map title (kept example_rag (example_rag_config 0.7 2) 0) = [''C'', ''B''] \<and>
   map title (qualifying example_rag (example_rag_config 0.7 2) 0) = [''B'', ''C'', ''D''] \<and>
   sources (enhanceSystemMessage example_rag (example_rag_config 0.7 2) ''q''
              (plain ''system'' (Some ''p''))) = Some [''C'', ''B''] \<and>
   enhanceSystemMessage example_rag (example_rag_config 0.99 2) ''q''
     (plain ''system'' (Some ''p'')) = plain ''system'' (Some ''p'') \<and>
   enhanceSystemMessage example_rag (example_rag_config 0.7 2) []
     (plain ''system'' (Some ''p'')) = plain ''system'' (Some ''p'') \<and>
   enhanceSystemMessage example_rag (example_rag_config 0.7 2) ''q''
     (plain ''system'' None) = plain ''system'' None"
proof -
  have m: "0 \<le> maxDocuments (example_rag_config 0.7 2)" "0 \<le> maxDocuments (example_rag_config 0.99 2)"
    by (simp_all add: example_rag_config_def)
  have g: "getEmbedding example_rag ''q'' = Inr 0" "getEmbedding example_rag [] = Inl ''no input''"
    by (simp_all add: example_rag_def)
  have k: "map title (kept example_rag (example_rag_config 0.7 2) 0) = [''C'', ''B'']"
    by (simp add: kept_def relevant_def example_rag_def example_rag_config_def score_def doc_def
          js_slice_to_def document.extend_def scored_document.fields_def)
  have q: "map title (qualifying example_rag (example_rag_config 0.7 2) 0) = [''B'', ''C'', ''D'']"
    by (simp add: qualifying_def example_rag_def example_rag_config_def score_def doc_def
          document.extend_def scored_document.fields_def)
  have k0: "kept example_rag (example_rag_config 0.99 2) 0 = []"
    by (simp add: kept_def relevant_def example_rag_def example_rag_config_def score_def doc_def
          js_slice_to_def document.extend_def scored_document.fields_def)
  have en: "rag_enabled (example_rag_config 0.7 2)" by (simp add: example_rag_config_def)
  from k have ne: "kept example_rag (example_rag_config 0.7 2) 0 \<noteq> []" by auto
  note t1 = augment_keeps_best_documents[OF m(1), of example_rag "''q''" "plain ''system'' (Some ''p'')"]
  note t2 = augment_keeps_best_documents[OF m(2), of example_rag "''q''" "plain ''system'' (Some ''p'')"]
  note t3 = augment_keeps_best_documents[OF m(1), of example_rag "[]" "plain ''system'' (Some ''p'')"]
  note t4 = augment_keeps_best_documents[OF m(1), of example_rag "''q''" "plain ''system'' None"]
  have cs: "content (plain ''system'' (Some ''p'')) = Some ''p''" "content (plain ''system'' None) = None"
    by (simp_all add: plain_def)
  from t1 g(1) ne en cs(1)
  have "sources (enhanceSystemMessage example_rag (example_rag_config 0.7 2) ''q''
              (plain ''system'' (Some ''p''))) = Some (map title (kept example_rag (example_rag_config 0.7 2) 0))"
    by simp
  moreover from t4 g(1) ne en cs(2)
  have "enhanceSystemMessage example_rag (example_rag_config 0.7 2) ''q''
     (plain ''system'' None) = plain ''system'' None" by simp
  moreover from t2 g(1) k0
  have "enhanceSystemMessage example_rag (example_rag_config 0.99 2) ''q''
     (plain ''system'' (Some ''p'')) = plain ''system'' (Some ''p'')" by simp
  moreover from t3 g(2)
  have "enhanceSystemMessage example_rag (example_rag_config 0.7 2) []
     (plain ''system'' (Some ''p'')) = plain ''system'' (Some ''p'')" by simp
  ultimately show ?thesis using m(1) k q by simp
qed

end
